theory Spec2Isabelle
  imports Complex_Main "HOL-Library.AList"
begin

section \<open>Numbers and exceptions\<close>

text \<open>
  The analysis module (\<^verbatim>\<open>Fig6/analysis.py\<close>) computes with NumPy \<^verbatim>\<open>float64\<close> values.
  They are modelled as exact real numbers extended with the three special values a
  NumPy computation can produce without raising: \<^verbatim>\<open>+inf\<close>, \<^verbatim>\<open>-inf\<close> and \<^verbatim>\<open>nan\<close>.
  Rounding, overflow, underflow and the sign of zero are not modelled: every finite
  operation is exact, and zero behaves as \<^verbatim>\<open>+0.0\<close>.
\<close>

datatype npfloat = Fin real | PInf | NInf | NaN

text \<open>The Python exceptions that the modelled code and library calls can raise.\<close>

datatype exn = ValueError | ZeroDivisionError | IndexError | TypeError | KeyError | FileNotFoundError

fun isfinite :: "npfloat \<Rightarrow> bool" where
  "isfinite (Fin x) = True"
| "isfinite PInf = False"
| "isfinite NInf = False"
| "isfinite NaN = False"

fun isnan :: "npfloat \<Rightarrow> bool" where
  "isnan NaN = True"
| "isnan (Fin x) = False"
| "isnan PInf = False"
| "isnan NInf = False"

text \<open>Projection of a finite value; only applied to values already checked finite.\<close>

fun the_fin :: "npfloat \<Rightarrow> real" where
  "the_fin (Fin x) = x"
| "the_fin PInf = 0"
| "the_fin NInf = 0"
| "the_fin NaN = 0"

fun fneg :: "npfloat \<Rightarrow> npfloat" where
  "fneg (Fin x) = Fin (- x)"
| "fneg PInf = NInf"
| "fneg NInf = PInf"
| "fneg NaN = NaN"

fun fadd :: "npfloat \<Rightarrow> npfloat \<Rightarrow> npfloat" where
  "fadd (Fin x) (Fin y) = Fin (x + y)"
| "fadd NaN b = NaN"
| "fadd a NaN = NaN"
| "fadd PInf NInf = NaN"
| "fadd NInf PInf = NaN"
| "fadd PInf b = PInf"
| "fadd a PInf = PInf"
| "fadd NInf b = NInf"
| "fadd a NInf = NInf"

definition fsub :: "npfloat \<Rightarrow> npfloat \<Rightarrow> npfloat" where
  "fsub a b = fadd a (fneg b)"

text \<open>An infinity of the sign of \<open>s\<close>; \<open>inf * 0\<close> is \<open>nan\<close>.\<close>

definition signed_inf :: "real \<Rightarrow> npfloat" where
  "signed_inf s = (if 0 < s then PInf else if s < 0 then NInf else NaN)"

fun fmul :: "npfloat \<Rightarrow> npfloat \<Rightarrow> npfloat" where
  "fmul (Fin x) (Fin y) = Fin (x * y)"
| "fmul NaN b = NaN"
| "fmul a NaN = NaN"
| "fmul PInf (Fin y) = signed_inf y"
| "fmul NInf (Fin y) = signed_inf (- y)"
| "fmul (Fin x) PInf = signed_inf x"
| "fmul (Fin x) NInf = signed_inf (- x)"
| "fmul PInf PInf = PInf"
| "fmul NInf NInf = PInf"
| "fmul PInf NInf = NInf"
| "fmul NInf PInf = NInf"

text \<open>
  NumPy division does not raise on a zero divisor: \<open>x / 0.0\<close> is \<open>\<plusminus>inf\<close> for \<open>x \<noteq> 0\<close>
  and \<open>nan\<close> for \<open>x = 0\<close> (a \<^verbatim>\<open>RuntimeWarning\<close> is printed, no exception).
\<close>

fun fdiv :: "npfloat \<Rightarrow> npfloat \<Rightarrow> npfloat" where
  "fdiv (Fin x) (Fin y) = (if y \<noteq> 0 then Fin (x / y) else signed_inf x)"
| "fdiv NaN b = NaN"
| "fdiv a NaN = NaN"
| "fdiv (Fin x) PInf = Fin 0"
| "fdiv (Fin x) NInf = Fin 0"
| "fdiv PInf (Fin y) = (if 0 \<le> y then PInf else NInf)"
| "fdiv NInf (Fin y) = (if 0 \<le> y then NInf else PInf)"
| "fdiv PInf PInf = NaN"
| "fdiv PInf NInf = NaN"
| "fdiv NInf PInf = NaN"
| "fdiv NInf NInf = NaN"

text \<open>\<^verbatim>\<open>np.power(x, 2.)\<close> and \<^verbatim>\<open>np.exp\<close>.\<close>

fun fsquare :: "npfloat \<Rightarrow> npfloat" where
  "fsquare (Fin x) = Fin (x * x)"
| "fsquare PInf = PInf"
| "fsquare NInf = PInf"
| "fsquare NaN = NaN"

fun fexp :: "npfloat \<Rightarrow> npfloat" where
  "fexp (Fin x) = Fin (exp x)"
| "fexp PInf = PInf"
| "fexp NInf = Fin 0"
| "fexp NaN = NaN"

text \<open>Comparisons: every comparison with \<open>nan\<close> is false.\<close>

fun flt :: "npfloat \<Rightarrow> npfloat \<Rightarrow> bool" where
  "flt (Fin x) (Fin y) = (x < y)"
| "flt NaN b = False"
| "flt a NaN = False"
| "flt a NInf = False"
| "flt PInf b = False"
| "flt NInf b = True"
| "flt a PInf = True"

fun fle :: "npfloat \<Rightarrow> npfloat \<Rightarrow> bool" where
  "fle (Fin x) (Fin y) = (x \<le> y)"
| "fle NaN b = False"
| "fle a NaN = False"
| "fle NInf b = True"
| "fle a PInf = True"
| "fle a NInf = False"
| "fle PInf b = False"

fun feq :: "npfloat \<Rightarrow> npfloat \<Rightarrow> bool" where
  "feq NaN b = False"
| "feq a NaN = False"
| "feq a b = (a = b)"

text \<open>\<^verbatim>\<open>np.diff\<close> of a one-dimensional array, and the sum of an array.\<close>

fun np_diff :: "npfloat list \<Rightarrow> npfloat list" where
  "np_diff (x # y # xs) = fsub y x # np_diff (y # xs)"
| "np_diff xs = []"

definition np_sum :: "npfloat list \<Rightarrow> npfloat" where
  "np_sum xs = foldl fadd (Fin 0) xs"

section \<open>Parameter grids\<close>

text \<open>
  \<^verbatim>\<open>np.arange(start, stop, step)\<close> on finite arguments: the length is
  \<open>\<lceil>(stop - start) / step\<rceil>\<close> (none when that is not positive), element \<open>i\<close> is
  \<open>start + i * step\<close>, and a zero step raises \<^verbatim>\<open>ZeroDivisionError\<close>. The quotient, the
  ceiling and the elements are computed exactly here, while NumPy computes them in
  \<^verbatim>\<open>float64\<close> (or in \<^verbatim>\<open>int64\<close>, with wrap-around, for integer arguments). The model
  therefore agrees with the library on arguments whose arithmetic is exact in the
  machine type, such as integers of moderate size and binary fractions, and nothing is
  concluded from it for other arguments.
\<close>

definition np_arange :: "real \<Rightarrow> real \<Rightarrow> real \<Rightarrow> exn + real list" where
  "np_arange start stop step =
     (if step = 0 then Inl ZeroDivisionError
      else Inr (map (\<lambda>i. start + real i * step) [0..<nat \<lceil>(stop - start) / step\<rceil>]))"

text \<open>
  \<^verbatim>\<open>create_param_range(x0, x1, res)\<close>: \<^verbatim>\<open>return np.arange(x0, x1 + res, res)\<close>. The
  docstring names \<open>x0\<close> the lower bound, \<open>x1\<close> the upper bound and \<open>res\<close> the step size.
  The sum \<open>x1 + res\<close> is exact here and rounded in \<^verbatim>\<open>float64\<close> by the code.
\<close>

definition create_param_range :: "real \<Rightarrow> real \<Rightarrow> real \<Rightarrow> exn + real list" where
  "create_param_range x0 x1 res = np_arange x0 (x1 + res) res"

section \<open>Discriminability scorer\<close>

text \<open>
  The two cleaning steps of \<^verbatim>\<open>discriminate\<close> on one collection:
  \<^verbatim>\<open>d[~np.isfinite(d)] = 0\<close> and then \<^verbatim>\<open>d = d[np.isfinite(d)].tolist()\<close>.
\<close>

definition zero_nonfinite :: "npfloat list \<Rightarrow> npfloat list" where
  "zero_nonfinite d = map (\<lambda>v. if \<not> isfinite v then Fin 0 else v) d"

definition keep_finite :: "npfloat list \<Rightarrow> npfloat list" where
  "keep_finite d = filter isfinite d"

definition sanitize :: "npfloat list \<Rightarrow> npfloat list" where
  "sanitize d = keep_finite (zero_nonfinite d)"

subsection \<open>The library calls \<^verbatim>\<open>metrics.roc_curve\<close> and \<^verbatim>\<open>metrics.auc\<close>\<close>

text \<open>
  scikit-learn is not part of the repository; the two functions are modelled from the
  library's published algorithm (\<^verbatim>\<open>sklearn/metrics/_ranking.py\<close>), for one-dimensional
  input, unit sample weights and the default \<^verbatim>\<open>drop_intermediate=True\<close>.

  \<^verbatim>\<open>_binary_clf_curve\<close>: the scores must be finite (\<^verbatim>\<open>assert_all_finite\<close>, else
  \<^verbatim>\<open>ValueError\<close>); the samples are ranked by decreasing score (a stable ascending sort,
  reversed); at the last index of every run of equal scores the true positives (labels
  equal to \<^verbatim>\<open>pos_label\<close>) and false positives ranked so far are counted. On empty input
  the index \<open>-1\<close> is read from an empty cumulative sum, which raises \<^verbatim>\<open>IndexError\<close>.
\<close>

definition binary_clf_curve :: "nat list \<Rightarrow> npfloat list \<Rightarrow> nat \<Rightarrow> exn + (real list \<times> real list)" where
  "binary_clf_curve y_true y_score pos_label =
     (if length y_true \<noteq> length y_score then Inl ValueError
      else if \<not> list_all isfinite y_score then Inl ValueError
      else if y_score = [] then Inl IndexError
      else
        let ranked = rev (sort_key snd (zip (map (\<lambda>l. l = pos_label) y_true) (map the_fin y_score)));
            n = length ranked;
            threshold_idxs =
              filter (\<lambda>i. snd (ranked ! i) \<noteq> snd (ranked ! (i + 1))) [0..<n - 1] @ [n - 1];
            tps = map (\<lambda>i. real (length (filter fst (take (i + 1) ranked)))) threshold_idxs;
            fps = map2 (\<lambda>i t. 1 + real i - t) threshold_idxs tps
        in Inr (fps, tps))"

text \<open>
  \<^verbatim>\<open>np.diff(v, 2)\<close> at position \<open>k\<close>, and the indices \<^verbatim>\<open>roc_curve\<close> keeps when it drops
  the points collinear with their neighbours: the first, the last, and every interior
  index at which a second difference of \<open>fps\<close> or \<open>tps\<close> is not zero.
\<close>

definition diff2_at :: "real list \<Rightarrow> nat \<Rightarrow> real" where
  "diff2_at v k = v ! (k + 2) - 2 * v ! (k + 1) + v ! k"

definition optimal_idxs :: "real list \<Rightarrow> real list \<Rightarrow> nat list" where
  "optimal_idxs fps tps =
     filter (\<lambda>i. i = 0 \<or> i = length fps - 1 \<or> diff2_at fps (i - 1) \<noteq> 0 \<or> diff2_at tps (i - 1) \<noteq> 0)
       [0..<length fps]"

text \<open>
  \<^verbatim>\<open>roc_curve\<close>: the curve starts at \<open>(0, 0)\<close>; the counts are divided by their last value.
  When a class is absent (last count \<open>\<le> 0\<close>) the library only warns
  (\<^verbatim>\<open>UndefinedMetricWarning\<close>) and the rate is an array of \<open>nan\<close>. The thresholds, which
  \<^verbatim>\<open>discriminate\<close> does not use, are left out.
\<close>

definition rates :: "real list \<Rightarrow> npfloat list" where
  "rates counts =
     (if last counts \<le> 0 then replicate (length counts) NaN
      else map (\<lambda>c. Fin (c / last counts)) counts)"

definition metrics_roc_curve :: "nat list \<Rightarrow> npfloat list \<Rightarrow> nat \<Rightarrow> exn + (npfloat list \<times> npfloat list)" where
  "metrics_roc_curve y_true y_score pos_label =
     (case binary_clf_curve y_true y_score pos_label of
        Inl e \<Rightarrow> Inl e
      | Inr (fps, tps) \<Rightarrow>
          let keep = (if length fps > 2 then optimal_idxs fps tps else [0..<length fps]);
              fps = 0 # map (\<lambda>i. fps ! i) keep;
              tps = 0 # map (\<lambda>i. tps ! i) keep
          in Inr (rates fps, rates tps))"

text \<open>
  \<^verbatim>\<open>auc(x, y)\<close>: fewer than two points raise \<^verbatim>\<open>ValueError\<close>; so does an \<open>x\<close> that is
  neither increasing nor decreasing; otherwise the area is the trapezoidal rule
  \<^verbatim>\<open>np.trapz(y, x)\<close>, negated when \<open>x\<close> is decreasing.
\<close>

definition np_trapz :: "npfloat list \<Rightarrow> npfloat list \<Rightarrow> npfloat" where
  "np_trapz y x =
     np_sum (map2 (\<lambda>d s. fdiv (fmul d s) (Fin 2)) (np_diff x) (map2 fadd (tl y) (butlast y)))"

definition metrics_auc :: "npfloat list \<Rightarrow> npfloat list \<Rightarrow> exn + npfloat" where
  "metrics_auc x y =
     (if length x \<noteq> length y then Inl ValueError
      else if length x < 2 then Inl ValueError
      else
        let dx = np_diff x in
        if list_ex (\<lambda>d. flt d (Fin 0)) dx then
          (if list_all (\<lambda>d. fle d (Fin 0)) dx then Inr (fmul (Fin (- 1)) (np_trapz y x))
           else Inl ValueError)
        else Inr (fmul (Fin 1) (np_trapz y x)))"

subsection \<open>\<^verbatim>\<open>discriminate\<close>\<close>

text \<open>
  The ground-truth values \<open>a\<close> and \<open>b\<close> are sweep levels, finite numbers. The body of the
  \<^verbatim>\<open>try\<close> is \<open>roc_auc\<close>; the bare \<^verbatim>\<open>except\<close> turns every exception into the result \<open>0\<close>.
\<close>

definition roc_auc :: "nat list \<Rightarrow> npfloat list \<Rightarrow> exn + npfloat" where
  "roc_auc true_value score =
     (case metrics_roc_curve true_value score 1 of
        Inl e \<Rightarrow> Inl e
      | Inr (false_positive_rate, true_positive_rate) \<Rightarrow> metrics_auc false_positive_rate true_positive_rate)"

definition discriminate :: "npfloat list \<Rightarrow> npfloat list \<Rightarrow> real \<Rightarrow> real \<Rightarrow> npfloat" where
  "discriminate d1 d2 a b =
     (let (d1, d2) = (if a > b then (d2, d1) else (d1, d2));
          d1 = sanitize d1;
          d2 = sanitize d2;
          score = d1 @ d2;
          true_value = replicate (length d1) 0 @ replicate (length d2) 1
      in case roc_auc true_value score of
           Inr auc \<Rightarrow> auc
         | Inl e \<Rightarrow> Fin 0)"

section \<open>Combination grid\<close>

text \<open>
  An \<^verbatim>\<open>InferredMeasure\<close> dictionary is an association list in insertion order; its keys
  (the sweep levels) are distinct, as the keys of a Python \<^verbatim>\<open>dict\<close> are.
  \<open>getitem\<close> is \<^verbatim>\<open>d[k]\<close>, which raises \<^verbatim>\<open>KeyError\<close> on a missing key.
\<close>

definition getitem :: "('k \<times> 'v) list \<Rightarrow> 'k \<Rightarrow> exn + 'v" where
  "getitem d k = (case map_of d k of None \<Rightarrow> Inl KeyError | Some v \<Rightarrow> Inr v)"

text \<open>
  \<^verbatim>\<open>np.meshgrid(x, y)\<close> (row \<open>i\<close> of \<open>xx\<close> is \<open>x\<close>, row \<open>i\<close> of \<open>yy\<close> repeats \<open>y[i]\<close>),
  \<^verbatim>\<open>np.ravel\<close> (row-major) and \<^verbatim>\<open>z.reshape(shape)\<close>, which raises \<^verbatim>\<open>ValueError\<close>
  when the sizes differ.
\<close>

definition np_meshgrid :: "'a list \<Rightarrow> 'a list \<Rightarrow> 'a list list \<times> 'a list list" where
  "np_meshgrid x y = (map (\<lambda>v. x) y, map (\<lambda>v. map (\<lambda>u. v) x) y)"

definition np_ravel :: "'a list list \<Rightarrow> 'a list" where
  "np_ravel a = concat a"

definition shape :: "'a list list \<Rightarrow> nat \<times> nat" where
  "shape a = (length a, (case a of [] \<Rightarrow> 0 | r # rs \<Rightarrow> length r))"

fun rows_of :: "nat \<Rightarrow> nat \<Rightarrow> 'a list \<Rightarrow> 'a list list" where
  "rows_of 0 c z = []"
| "rows_of (Suc r) c z = take c z # rows_of r c (drop c z)"

definition np_reshape :: "'a list \<Rightarrow> nat \<times> nat \<Rightarrow> exn + 'a list list" where
  "np_reshape z sh =
     (if length z \<noteq> fst sh * snd sh then Inl ValueError else Inr (rows_of (fst sh) (snd sh) z))"

text \<open>A list comprehension whose element expression can raise: the first exception ends it.\<close>

fun comprehension :: "('a \<Rightarrow> exn + 'b) \<Rightarrow> 'a list \<Rightarrow> exn + 'b list" where
  "comprehension f [] = Inr []"
| "comprehension f (x # xs) =
     (case f x of
        Inl e \<Rightarrow> Inl e
      | Inr v \<Rightarrow> (case comprehension f xs of Inl e \<Rightarrow> Inl e | Inr vs \<Rightarrow> Inr (v # vs)))"

definition discrimination_combinations ::
  "(real \<times> npfloat list) list \<Rightarrow> exn + (real list list \<times> real list list \<times> npfloat list list)" where
  "discrimination_combinations infered_values =
     (let levels = map fst infered_values;
          (xx, yy) = np_meshgrid levels levels
      in case comprehension
                (\<lambda>(x, y). case getitem infered_values x of
                             Inl e \<Rightarrow> Inl e
                           | Inr dx \<Rightarrow> (case getitem infered_values y of
                                          Inl e \<Rightarrow> Inl e
                                        | Inr dy \<Rightarrow> Inr (discriminate dx dy x y)))
                (zip (np_ravel xx) (np_ravel yy)) of
           Inl e \<Rightarrow> Inl e
         | Inr z \<Rightarrow> (case np_reshape z (shape xx) of
                       Inl e \<Rightarrow> Inl e
                     | Inr zz \<Rightarrow> Inr (xx, yy, zz)))"

section \<open>Persistence\<close>

text \<open>
  The file system is a map from paths to file contents, with a predicate saying which
  paths can be opened for writing (the directory \<^verbatim>\<open>save_data\<close> must exist).
  \<open>path_div\<close> is the operator \<^verbatim>\<open>/\<close> of \<^verbatim>\<open>pathlib.Path\<close>: an absolute right operand
  replaces the left one. \<^verbatim>\<open>pickle.dump\<close> and \<^verbatim>\<open>pickle.load\<close> are library calls,
  taken as the parameters \<open>dumps\<close> and \<open>loads\<close>.
\<close>

record 'b filesystem =
  writable :: "string \<Rightarrow> bool"
  files :: "string \<rightharpoonup> 'b"

definition path_div :: "string \<Rightarrow> string \<Rightarrow> string" where
  "path_div parent child =
     (case child of
        [] \<Rightarrow> parent
      | c # cs \<Rightarrow> if c = CHR ''/'' then child else parent @ ''/'' @ child)"

definition pkl_path :: "string \<Rightarrow> string \<Rightarrow> string" where
  "pkl_path sim_name sim_type = path_div ''save_data'' (sim_name @ ''_'' @ sim_type @ ''.pkl'')"

definition save ::
  "('s \<times> 'i \<Rightarrow> 'b) \<Rightarrow> 'b filesystem \<Rightarrow> string \<Rightarrow> string \<Rightarrow> 's \<Rightarrow> 'i \<Rightarrow> exn + 'b filesystem" where
  "save dumps fs sim_name sim_type spike_times infered_values =
     (let f = pkl_path sim_name sim_type in
      if writable fs f
      then Inr (fs\<lparr>files := (files fs)(f \<mapsto> dumps (spike_times, infered_values))\<rparr>)
      else Inl FileNotFoundError)"

definition load :: "('b \<Rightarrow> exn + 'o) \<Rightarrow> 'b filesystem \<Rightarrow> string \<Rightarrow> string \<Rightarrow> exn + 'o" where
  "load loads fs sim_name sim_type =
     (case files fs (pkl_path sim_name sim_type) of
        None \<Rightarrow> Inl FileNotFoundError
      | Some b \<Rightarrow> loads b)"

definition load_amplitude :: "('b \<Rightarrow> exn + 'o) \<Rightarrow> 'b filesystem \<Rightarrow> string \<Rightarrow> exn + 'o" where
  "load_amplitude loads fs sim_name = load loads fs sim_name ''A''"

definition load_frequency :: "('b \<Rightarrow> exn + 'o) \<Rightarrow> 'b filesystem \<Rightarrow> string \<Rightarrow> exn + 'o" where
  "load_frequency loads fs sim_name = load loads fs sim_name ''f''"

definition save_amplitude ::
  "('s \<times> 'i \<Rightarrow> 'b) \<Rightarrow> 'b filesystem \<Rightarrow> string \<Rightarrow> 's \<Rightarrow> 'i \<Rightarrow> exn + 'b filesystem" where
  "save_amplitude dumps fs sim_name spike_times infered_amplitude =
     save dumps fs sim_name ''A'' spike_times infered_amplitude"

definition save_frequency ::
  "('s \<times> 'i \<Rightarrow> 'b) \<Rightarrow> 'b filesystem \<Rightarrow> string \<Rightarrow> 's \<Rightarrow> 'i \<Rightarrow> exn + 'b filesystem" where
  "save_frequency dumps fs sim_name spike_times infered_frequency =
     save dumps fs sim_name ''f'' spike_times infered_frequency"

section \<open>Frequency and amplitude inference\<close>

text \<open>
  \<^verbatim>\<open>gaussian(x, mu, sig)\<close>, one element of the array expression
  \<^verbatim>\<open>1. / (np.sqrt(2. * np.pi) * sig) * np.exp(-np.power((x - mu) / sig, 2.) / 2)\<close>.
\<close>

definition gaussian :: "npfloat \<Rightarrow> npfloat \<Rightarrow> npfloat \<Rightarrow> npfloat" where
  "gaussian x mu sig =
     fmul (fdiv (Fin 1) (fmul (Fin (sqrt (2 * pi))) sig))
          (fexp (fdiv (fneg (fsquare (fdiv (fsub x mu) sig))) (Fin 2)))"

text \<open>
  \<^verbatim>\<open>np.sum(np.vstack(rows), axis=0)\<close>: \<^verbatim>\<open>np.vstack\<close> raises \<^verbatim>\<open>ValueError\<close> on an empty
  list of rows; the rows here always have the length of the bin grid.
\<close>

definition sum_rows :: "npfloat list list \<Rightarrow> exn + npfloat list" where
  "sum_rows rows =
     (case rows of
        [] \<Rightarrow> Inl ValueError
      | r # rs \<Rightarrow> Inr (foldl (\<lambda>acc row. map2 fadd acc row) r rs))"

subsection \<open>The library call \<^verbatim>\<open>scipy.signal.find_peaks\<close>\<close>

text \<open>
  SciPy is not part of the repository; \<^verbatim>\<open>find_peaks(x, prominence=prom)\<close> is modelled
  from the library's published algorithm (\<^verbatim>\<open>scipy/signal/_peak_finding_utils.pyx\<close>).

  \<^verbatim>\<open>_local_maxima_1d\<close>: the pointer \<open>i\<close> runs from \<open>1\<close> to \<open>i_max = len(x) - 1\<close>
  (exclusive). Where \<open>x[i - 1] < x[i]\<close>, \<open>i_ahead\<close> skips the samples equal to \<open>x[i]\<close>;
  when the next unequal sample is smaller, the midpoint of the plateau is a peak and
  the scan goes on after \<open>i_ahead\<close>.
\<close>

function look_ahead :: "npfloat list \<Rightarrow> nat \<Rightarrow> nat \<Rightarrow> nat \<Rightarrow> nat" where
  "look_ahead x i i_ahead i_max =
     (if i_ahead < i_max \<and> feq (x ! i_ahead) (x ! i) then look_ahead x i (i_ahead + 1) i_max
      else i_ahead)"
  by pat_completeness auto
termination
  by (relation "measure (\<lambda>(x, i, i_ahead, i_max). i_max - i_ahead)") auto

declare look_ahead.simps [simp del]

lemma look_ahead_ge: "i_ahead \<le> look_ahead x i i_ahead i_max"
proof (induction x i i_ahead i_max rule: look_ahead.induct)
  case (1 x i i_ahead i_max)
  show ?case
  proof (cases "i_ahead < i_max \<and> feq (x ! i_ahead) (x ! i)")
    case True
    with "1" have "i_ahead + 1 \<le> look_ahead x i (i_ahead + 1) i_max" by simp
    moreover from True have "look_ahead x i i_ahead i_max = look_ahead x i (i_ahead + 1) i_max"
      by (subst look_ahead.simps) simp
    ultimately show ?thesis by simp
  next
    case False
    then have "look_ahead x i i_ahead i_max = i_ahead"
      by (subst look_ahead.simps) auto
    then show ?thesis by simp
  qed
qed

function local_maxima_from :: "npfloat list \<Rightarrow> nat \<Rightarrow> nat \<Rightarrow> nat list" where
  "local_maxima_from x i i_max =
     (if i < i_max then
        (if flt (x ! (i - 1)) (x ! i) then
           (if flt (x ! look_ahead x i (i + 1) i_max) (x ! i)
            then ((i + (look_ahead x i (i + 1) i_max - 1)) div 2)
                   # local_maxima_from x (look_ahead x i (i + 1) i_max + 1) i_max
            else local_maxima_from x (i + 1) i_max)
         else local_maxima_from x (i + 1) i_max)
      else [])"
  by pat_completeness auto
termination
proof (relation "measure (\<lambda>(x, i, i_max). i_max - i)")
  fix x :: "npfloat list" and i i_max :: nat
  assume "i < i_max"
  moreover have "i + 1 \<le> look_ahead x i (i + 1) i_max" by (rule look_ahead_ge)
  ultimately show "((x, look_ahead x i (i + 1) i_max + 1, i_max), (x, i, i_max))
                     \<in> measure (\<lambda>(x, i, i_max). i_max - i)"
    by simp
qed auto

declare local_maxima_from.simps [simp del]

definition local_maxima_1d :: "npfloat list \<Rightarrow> nat list" where
  "local_maxima_1d x = local_maxima_from x 1 (length x - 1)"

text \<open>
  \<^verbatim>\<open>_peak_prominences\<close> with no window: from the peak the scan walks to the left, and
  then to the right, while the samples are not higher than the peak, and keeps the
  lowest sample met; the prominence is the peak's height above the higher of the two
  minima. \<open>scan_min h seg m\<close> is one such walk over the samples \<open>seg\<close>, in the order met.
\<close>

fun scan_min :: "npfloat \<Rightarrow> npfloat list \<Rightarrow> npfloat \<Rightarrow> npfloat" where
  "scan_min h [] m = m"
| "scan_min h (v # vs) m =
     (if fle v h then scan_min h vs (if flt v m then v else m) else m)"

definition fmax :: "npfloat \<Rightarrow> npfloat \<Rightarrow> npfloat" where
  "fmax a b = (if flt b a then a else b)"

definition peak_prominence :: "npfloat list \<Rightarrow> nat \<Rightarrow> npfloat" where
  "peak_prominence x peak =
     (let left_min = scan_min (x ! peak) (rev (take (peak + 1) x)) (x ! peak);
          right_min = scan_min (x ! peak) (drop peak x) (x ! peak)
      in fsub (x ! peak) (fmax left_min right_min))"

text \<open>
  \<^verbatim>\<open>find_peaks\<close>: with \<^verbatim>\<open>prominence=None\<close> every local maximum is returned; with a
  number, the peaks whose prominence is at least that number (\<^verbatim>\<open>pmin <= prominences\<close>).
\<close>

definition find_peaks :: "npfloat list \<Rightarrow> real option \<Rightarrow> nat list" where
  "find_peaks x prominence =
     (let peaks = local_maxima_1d x in
      case prominence of
        None \<Rightarrow> peaks
      | Some pmin \<Rightarrow> filter (\<lambda>peak. fle (Fin pmin) (peak_prominence x peak)) peaks)"

text \<open>
  \<^verbatim>\<open>np.argmax\<close>: the first index of the maximum; a \<open>nan\<close> counts as maximal; an empty
  array raises \<^verbatim>\<open>ValueError\<close>.
\<close>

fun argmax_loop :: "npfloat list \<Rightarrow> nat \<Rightarrow> npfloat \<Rightarrow> nat \<Rightarrow> nat" where
  "argmax_loop [] i mp max_ind = max_ind"
| "argmax_loop (v # vs) i mp max_ind =
     (if \<not> fle v mp then (if isnan v then i else argmax_loop vs (i + 1) v i)
      else argmax_loop vs (i + 1) mp max_ind)"

definition np_argmax :: "npfloat list \<Rightarrow> exn + nat" where
  "np_argmax a =
     (case a of
        [] \<Rightarrow> Inl ValueError
      | v # vs \<Rightarrow> Inr (if isnan v then 0 else argmax_loop vs 1 v 0))"

subsection \<open>\<^verbatim>\<open>infer_frequency\<close> and \<^verbatim>\<open>infer_amplitude\<close>\<close>

text \<open>
  Lines 35 to 40 of \<^verbatim>\<open>infer_frequency\<close>: the bin grid and the normalised sum of
  gaussians centred at the inter-spike intervals.
\<close>

definition isi_density :: "npfloat list \<Rightarrow> real \<Rightarrow> real \<Rightarrow> exn + (real list \<times> npfloat list)" where
  "isi_density spike_times t1 res =
     (case np_arange 0 350 res of
        Inl e \<Rightarrow> Inl e
      | Inr isi_bin \<Rightarrow>
          let isi = np_diff spike_times in
          case sum_rows (map (\<lambda>i. map (\<lambda>x. gaussian (Fin x) i (Fin t1)) isi_bin) isi) of
            Inl e \<Rightarrow> Inl e
          | Inr isi_hist_g \<Rightarrow>
              Inr (isi_bin, map (\<lambda>v. fdiv v (np_sum isi_hist_g)) isi_hist_g))"

text \<open>
  Lines 45 and 46: the second grid and the sum of gaussians centred at the peak
  differences. The drivers can pass \<^verbatim>\<open>t2=None\<close>; the first call of \<^verbatim>\<open>gaussian\<close> then
  raises \<^verbatim>\<open>TypeError\<close>.
\<close>

definition peak_density :: "npfloat list \<Rightarrow> real option \<Rightarrow> real \<Rightarrow> exn + (real list \<times> npfloat list)" where
  "peak_density pk_location_diffs t2 time_step =
     (case np_arange 0 15 time_step of
        Inl e \<Rightarrow> Inl e
      | Inr peak_loc_bins \<Rightarrow>
          (case comprehension
                  (\<lambda>pk. case t2 of
                          None \<Rightarrow> Inl TypeError
                        | Some s \<Rightarrow> Inr (map (\<lambda>x. gaussian (Fin x) pk (Fin s)) peak_loc_bins))
                  pk_location_diffs of
             Inl e \<Rightarrow> Inl e
           | Inr rows \<Rightarrow>
               (case sum_rows rows of
                  Inl e \<Rightarrow> Inl e
                | Inr peak_hist_g \<Rightarrow> Inr (peak_loc_bins, peak_hist_g))))"

text \<open>The body of the \<^verbatim>\<open>try\<close>, and the function: the bare \<^verbatim>\<open>except\<close> returns \<^verbatim>\<open>np.nan\<close>.\<close>

definition infer_frequency_try ::
  "npfloat list \<Rightarrow> real \<Rightarrow> real option \<Rightarrow> real \<Rightarrow> real option \<Rightarrow> real \<Rightarrow> exn + npfloat" where
  "infer_frequency_try spike_times t1 t2 res prom time_step =
     (case isi_density spike_times t1 res of
        Inl e \<Rightarrow> Inl e
      | Inr (isi_bin, isi_hist_g) \<Rightarrow>
          let pks = find_peaks isi_hist_g prom;
              pk_location_diffs = np_diff (map (\<lambda>k. Fin (isi_bin ! k)) pks)
          in case peak_density pk_location_diffs t2 time_step of
               Inl e \<Rightarrow> Inl e
             | Inr (peak_loc_bins, peak_hist_g) \<Rightarrow>
                 (case np_argmax peak_hist_g of
                    Inl e \<Rightarrow> Inl e
                  | Inr k \<Rightarrow> Inr (fdiv (Fin 1000) (Fin (peak_loc_bins ! k)))))"

definition infer_frequency ::
  "npfloat list \<Rightarrow> real \<Rightarrow> real option \<Rightarrow> real \<Rightarrow> real option \<Rightarrow> real \<Rightarrow> npfloat" where
  "infer_frequency spike_times t1 t2 res prom time_step =
     (case infer_frequency_try spike_times t1 t2 res prom time_step of
        Inr frequency \<Rightarrow> frequency
      | Inl e \<Rightarrow> NaN)"

text \<open>The call with the default tuning parameters of the signature.\<close>

definition infer_frequency_default :: "npfloat list \<Rightarrow> npfloat" where
  "infer_frequency_default spike_times =
     infer_frequency spike_times (6 / 10) (Some (3 / 10)) (1 / 10) (Some (5 / 10)) (1 / 100)"

definition infer_amplitude :: "'a list \<Rightarrow> nat" where
  "infer_amplitude spike_times = length spike_times"

text \<open>A finite value above zero; the entries of the smoothed densities are such values.\<close>

definition positive_finite :: "npfloat \<Rightarrow> bool" where
  "positive_finite v = (isfinite v \<and> 0 < the_fin v)"

section \<open>Sweep drivers\<close>

text \<open>
  Modelled from the spec: the \<^verbatim>\<open>Model\<close> class (its \<^verbatim>\<open>store\<close>, \<^verbatim>\<open>restore\<close>, \<^verbatim>\<open>run\<close>,
  \<^verbatim>\<open>set_stimulus_current\<close>, the attribute \<^verbatim>\<open>f\<close>, \<^verbatim>\<open>neurons.N\<close> and \<^verbatim>\<open>spike_train\<close>) is
  an external collaborator whose code is not in the repository. A model is the log of
  the calls made on it; the simulation engine is a parameter \<open>sim\<close> that gives the
  spike trains (unit index and spike times) after a run, from the calls made so far.
  A physical quantity is its magnitude in SI units, either one value for all units or
  an array with one entry per unit.
\<close>

datatype quantity = Scalar real | Array "real list"

datatype call =
    Store string
  | Restore string
  | Set_stimulus_current quantity
  | Set_f quantity
  | Run real

record model =
  neurons_N :: nat
  calls :: "call list"
  spike_train :: "(nat \<times> real list) list"

definition Hz :: real where "Hz = 1"

definition second :: real where "second = 1"

definition ms :: real where "ms = 1 / 1000"

definition store :: "model \<Rightarrow> string \<Rightarrow> model" where
  "store m tag = m\<lparr>calls := calls m @ [Store tag]\<rparr>"

definition restore :: "model \<Rightarrow> string \<Rightarrow> model" where
  "restore m tag = m\<lparr>calls := calls m @ [Restore tag]\<rparr>"

definition set_stimulus_current :: "model \<Rightarrow> quantity \<Rightarrow> model" where
  "set_stimulus_current m v = m\<lparr>calls := calls m @ [Set_stimulus_current v]\<rparr>"

definition set_f :: "model \<Rightarrow> quantity \<Rightarrow> model" where
  "set_f m v = m\<lparr>calls := calls m @ [Set_f v]\<rparr>"

definition run :: "(call list \<Rightarrow> (nat \<times> real list) list) \<Rightarrow> model \<Rightarrow> real \<Rightarrow> model" where
  "run sim m t = m\<lparr>calls := calls m @ [Run t], spike_train := sim (calls m @ [Run t])\<rparr>"

text \<open>
  The global random generator of NumPy is a stream of uniform variates of \<open>[0, 1)\<close>
  and a read position. \<^verbatim>\<open>np.random.uniform(low, high, size)\<close> consumes \<open>sz = size\<close> variates
  and returns \<open>low + (high - low) * u\<close> for each.
\<close>

type_synonym rng = "nat \<times> (nat \<Rightarrow> real)"

definition np_random_uniform :: "real \<Rightarrow> real \<Rightarrow> nat \<Rightarrow> rng \<Rightarrow> real list \<times> rng" where
  "np_random_uniform low high sz g =
     (map (\<lambda>i. low + (high - low) * snd g (fst g + i)) [0..<sz], (fst g + sz, snd g))"

text \<open>
  One iteration of the loop of \<^verbatim>\<open>evaluate_amplitude_discrimination\<close>, on the state
  (model, generator, \<open>spike_times\<close>, \<open>infered_amplitude\<close>). A dictionary assignment
  \<^verbatim>\<open>d[k] = v\<close> is \<open>AList.update\<close>.
\<close>

definition amplitude_trial ::
  "(call list \<Rightarrow> (nat \<times> real list) list) \<Rightarrow> real \<Rightarrow> real \<Rightarrow> real \<Rightarrow> real \<Rightarrow>
   model \<times> rng \<times> (real \<times> (nat \<times> real list) list) list \<times> (real \<times> nat list) list \<Rightarrow> real \<Rightarrow>
   model \<times> rng \<times> (real \<times> (nat \<times> real list) list) list \<times> (real \<times> nat list) list" where
  "amplitude_trial sim unit f0 f1 t_max st amp =
     (case st of (model, g, spike_times, infered_amplitude) \<Rightarrow>
        let model = restore model ''initial'';
            model = set_stimulus_current model (Scalar (amp * unit));
            (draws, g) = np_random_uniform f0 f1 (neurons_N model) g;
            model = set_f model (Array (map (\<lambda>v. v * Hz) draws));
            model = run sim model t_max;
            spike_times = AList.update amp (spike_train model) spike_times;
            infered_amplitude =
              AList.update amp (map infer_amplitude (map snd (spike_train model))) infered_amplitude
        in (model, g, spike_times, infered_amplitude))"

text \<open>
  \<^verbatim>\<open>evaluate_amplitude_discrimination\<close> (defaults \<open>f0 = 100\<close>, \<open>f1 = 600\<close>,
  \<open>t_max = 10 * second\<close>). Besides the two dictionaries that the Python function
  returns, the result holds the model and the generator as the loop left them.
\<close>

definition evaluate_amplitude_discrimination ::
  "(call list \<Rightarrow> (nat \<times> real list) list) \<Rightarrow> model \<Rightarrow> rng \<Rightarrow> real \<Rightarrow> real \<Rightarrow> real \<Rightarrow> real \<Rightarrow>
   real \<Rightarrow> real \<Rightarrow> real \<Rightarrow>
   exn + (model \<times> rng \<times> (real \<times> (nat \<times> real list) list) list \<times> (real \<times> nat list) list)" where
  "evaluate_amplitude_discrimination sim model g a0 a1 res unit f0 f1 t_max =
     (case create_param_range a0 a1 res of
        Inl e \<Rightarrow> Inl e
      | Inr trial_amplitude \<Rightarrow>
          Inr (foldl (amplitude_trial sim unit f0 f1 t_max)
                 (store model ''initial'', g, [], []) trial_amplitude))"

text \<open>
  One iteration of the loop of \<^verbatim>\<open>evaluate_frequency_discrimination\<close>; the inference
  runs only when \<open>t1\<close> is given.
\<close>

definition frequency_trial ::
  "(call list \<Rightarrow> (nat \<times> real list) list) \<Rightarrow> real \<Rightarrow> real \<Rightarrow> real \<Rightarrow> real \<Rightarrow>
   real option \<Rightarrow> real option \<Rightarrow> real option \<Rightarrow> real \<Rightarrow> real \<Rightarrow>
   model \<times> rng \<times> (real \<times> (nat \<times> real list) list) list \<times> (real \<times> npfloat list) list \<Rightarrow> real \<Rightarrow>
   model \<times> rng \<times> (real \<times> (nat \<times> real list) list) list \<times> (real \<times> npfloat list) list" where
  "frequency_trial sim unit a0 a1 t_max t1 t2 prom infer_res time_step st freq =
     (case st of (model, g, spike_times, infered_frequency) \<Rightarrow>
        let model = restore model ''initial'';
            model = set_f model (Scalar (freq * Hz));
            (draws, g) = np_random_uniform a0 a1 (neurons_N model) g;
            model = set_stimulus_current model (Array (map (\<lambda>v. v * unit) draws));
            model = run sim model t_max;
            spike_times = AList.update freq (spike_train model) spike_times;
            infered_frequency =
              (case t1 of
                 None \<Rightarrow> infered_frequency
               | Some t1 \<Rightarrow>
                   AList.update freq
                     (map (\<lambda>x. infer_frequency (map (\<lambda>t. Fin (t / ms)) x) t1 t2 infer_res prom time_step)
                        (map snd (spike_train model)))
                     infered_frequency)
        in (model, g, spike_times, infered_frequency))"

text \<open>
  \<^verbatim>\<open>evaluate_frequency_discrimination\<close> (defaults \<open>a0 = 50\<close>, \<open>a1 = 100\<close>,
  \<open>t_max = 10 * second\<close>, \<open>t1 = t2 = prom = None\<close>, \<open>infer_res = 0.25\<close>,
  \<open>time_step = 0.05\<close>).
\<close>

definition evaluate_frequency_discrimination ::
  "(call list \<Rightarrow> (nat \<times> real list) list) \<Rightarrow> model \<Rightarrow> rng \<Rightarrow> real \<Rightarrow> real \<Rightarrow> real \<Rightarrow> real \<Rightarrow>
   real \<Rightarrow> real \<Rightarrow> real \<Rightarrow> real option \<Rightarrow> real option \<Rightarrow> real option \<Rightarrow> real \<Rightarrow> real \<Rightarrow>
   exn + (model \<times> rng \<times> (real \<times> (nat \<times> real list) list) list \<times> (real \<times> npfloat list) list)" where
  "evaluate_frequency_discrimination sim model g f0 f1 res unit a0 a1 t_max t1 t2 prom infer_res time_step =
     (case create_param_range f0 f1 res of
        Inl e \<Rightarrow> Inl e
      | Inr trial_frequency \<Rightarrow>
          Inr (foldl (frequency_trial sim unit a0 a1 t_max t1 t2 prom infer_res time_step)
                 (store model ''initial'', g, [], []) trial_frequency))"

section \<open>Properties of the parameter grid\<close>

text \<open>
  C6: the parameter set is meant to run from the lower bound \<open>x0\<close> to the upper bound
  \<open>x1\<close>, with \<open>x1\<close> included and no element above it. At \<^verbatim>\<open>create_param_range(0, 5, 2)\<close>
  the code returns \<open>[0, 2, 4, 6]\<close>: the stop value handed to \<^verbatim>\<open>np.arange\<close> is
  \<open>x1 + res = 7\<close>, so the last element 6 lies above the upper bound 5, and 5 itself is
  not an element. Every number of this run is a small integer, on which the machine
  arithmetic is exact.
\<close>

theorem create_param_range_exceeds_upper_bound:
  "create_param_range 0 5 2 = Inr [0, 2, 4, 6] \<and> (5::real) < 6 \<and> (5::real) \<notin> set [0, 2, 4, 6]"
  by (simp add: create_param_range_def np_arange_def upt_rec)

text \<open>
  When the step divides the interval and the arithmetic is exact, the upper bound is
  the last element: \<^verbatim>\<open>create_param_range(0, 1, 0.5)\<close> is \<open>[0, 0.5, 1.0]\<close>.
\<close>

lemma create_param_range_half_steps: "create_param_range 0 1 (1 / 2) = Inr [0, 1 / 2, 1]"
  by (simp add: create_param_range_def np_arange_def upt_rec)

section \<open>Properties of the discriminability scorer\<close>

lemma keep_finite_zero_nonfinite: "keep_finite (zero_nonfinite d) = zero_nonfinite d"
  by (induction d) (simp_all add: keep_finite_def zero_nonfinite_def)

lemma length_sanitize: "length (sanitize d) = length d"
  by (simp add: sanitize_def keep_finite_zero_nonfinite) (simp add: zero_nonfinite_def)

lemma discriminate_swap: "a \<noteq> b \<Longrightarrow> discriminate d1 d2 a b = discriminate d2 d1 b a"
  by (cases "a > b") (simp_all add: discriminate_def)

text \<open>
  C2, as stated, fails when the two ground-truth values are equal: no swap happens in
  either call, so exchanging the collections exchanges the classes.
  \<^verbatim>\<open>discriminate([0], [1], 0, 0)\<close> is 1 and \<^verbatim>\<open>discriminate([1], [0], 0, 0)\<close> is 0.
\<close>

theorem discriminate_swap_equal_levels_counterexample:
  "discriminate [Fin 0] [Fin 1] 0 0 = Fin 1 \<and> discriminate [Fin 1] [Fin 0] 0 0 = Fin 0"
  by code_simp

text \<open>
  C2, amended: for two different ground-truth values \<open>a\<close> and \<open>b\<close>,
  \<^verbatim>\<open>discriminate(d1, d2, a, b)\<close> equals \<^verbatim>\<open>discriminate(d2, d1, b, a)\<close>.
\<close>

theorem discriminate_swap_invariant:
  "a \<noteq> b \<Longrightarrow> discriminate d1 d2 a b = discriminate d2 d1 b a"
  by (rule discriminate_swap)

theorem discriminate_swap_invariant_witness:
  "(1::real) \<noteq> 2 \<and>
   discriminate [Fin 1, Fin 1] [Fin 5, Fin 5] 1 2 = discriminate [Fin 5, Fin 5] [Fin 1, Fin 1] 2 1"
  using discriminate_swap_invariant[of 1 2 "[Fin 1, Fin 1]" "[Fin 5, Fin 5]"] by simp


section \<open>Properties of the combination grid\<close>

lemma comprehension_total:
  "(\<And>x. x \<in> set xs \<Longrightarrow> f x = Inr (g x)) \<Longrightarrow> comprehension f xs = Inr (map g xs)"
  by (induction xs) simp_all

lemma rows_of_concat:
  "(\<And>r. r \<in> set rows \<Longrightarrow> length r = c) \<Longrightarrow> rows_of (length rows) c (concat rows) = rows"
  by (induction rows) simp_all

lemma zip_meshgrid:
  "zip (concat (map (\<lambda>v. x) y)) (concat (map (\<lambda>v. map (\<lambda>u. v) x) y)) =
   concat (map (\<lambda>v. map (\<lambda>u. (u, v)) x) y)"
proof (induction y)
  case Nil
  then show ?case by simp
next
  case (Cons v y)
  have "zip x (map (\<lambda>u. v) x) = map (\<lambda>u. (u, v)) x"
    by (induction x) simp_all
  with Cons show ?case by (simp add: zip_append)
qed

lemma length_concat_square: "length (concat (map (\<lambda>v. map (h v) x) y)) = length y * length x"
  by (induction y) simp_all

lemma reshape_meshgrid:
  "np_reshape (map G (zip (np_ravel (map (\<lambda>v. L) L)) (np_ravel (map (\<lambda>v. map (\<lambda>u. v) L) L))))
     (shape (map (\<lambda>v. L) L)) = Inr (map (\<lambda>v. map (\<lambda>u. G (u, v)) L) L)"
proof -
  let ?rows = "map (\<lambda>v. map (\<lambda>u. G (u, v)) L) L"
  have z: "map G (zip (np_ravel (map (\<lambda>v. L) L)) (np_ravel (map (\<lambda>v. map (\<lambda>u. v) L) L))) =
           concat ?rows"
    by (simp add: np_ravel_def zip_meshgrid map_concat comp_def)
  have sh: "shape (map (\<lambda>v. L) L) = (length L, length L)"
    by (cases L) (simp_all add: shape_def)
  have len: "length (concat ?rows) = length L * length L"
    by (rule length_concat_square)
  have "rows_of (length ?rows) (length L) (concat ?rows) = ?rows"
    by (rule rows_of_concat) auto
  then have "rows_of (length L) (length L) (concat ?rows) = ?rows" by simp
  with len show ?thesis
    unfolding z sh np_reshape_def by simp
qed

lemma discrimination_combinations_grid:
  assumes d: "distinct (map fst iv)" and L: "L = map fst iv"
  shows "discrimination_combinations iv =
     Inr (map (\<lambda>v. L) L, map (\<lambda>v. map (\<lambda>u. v) L) L,
          map (\<lambda>v. map (\<lambda>u. discriminate (the (map_of iv u)) (the (map_of iv v)) u v) L) L)"
proof -
  let ?f = "\<lambda>(x, y). case getitem iv x of
                             Inl e \<Rightarrow> Inl e
                           | Inr dx \<Rightarrow> (case getitem iv y of
                                          Inl e \<Rightarrow> Inl e
                                        | Inr dy \<Rightarrow> Inr (discriminate dx dy x y))"
  let ?g = "\<lambda>(x, y). discriminate (the (map_of iv x)) (the (map_of iv y)) x y"
  let ?pairs = "zip (np_ravel (map (\<lambda>v. L) L)) (np_ravel (map (\<lambda>v. map (\<lambda>u. v) L) L))"
  have get: "getitem iv k = Inr (the (map_of iv k))" if "k \<in> set L" for k
  proof -
    from that L obtain v where "(k, v) \<in> set iv" by auto
    with d show ?thesis by (simp add: getitem_def)
  qed
  have fg: "?f p = Inr (?g p)" if "p \<in> set ?pairs" for p
  proof -
    obtain x y where p: "p = (x, y)" by (cases p)
    from that p have "x \<in> set (np_ravel (map (\<lambda>v. L) L))"
      and "y \<in> set (np_ravel (map (\<lambda>v. map (\<lambda>u. v) L) L))"
      by (auto dest: set_zip_leftD set_zip_rightD)
    then have "x \<in> set L" "y \<in> set L" by (auto simp: np_ravel_def split: if_splits)
    then show ?thesis using get p by simp
  qed
  have z: "comprehension ?f ?pairs = Inr (map ?g ?pairs)"
    by (rule comprehension_total) (rule fg)
  have r: "np_reshape (map ?g ?pairs) (shape (map (\<lambda>v. L) L)) =
           Inr (map (\<lambda>v. map (\<lambda>u. ?g (u, v)) L) L)"
    by (rule reshape_meshgrid)
  show ?thesis
    unfolding discrimination_combinations_def np_meshgrid_def Let_def L[symmetric]
    using z r by simp
qed

text \<open>
  C7: for an \<^verbatim>\<open>InferredMeasure\<close> dictionary with \<open>n\<close> levels (distinct keys),
  \<^verbatim>\<open>discrimination_combinations\<close> returns three \<open>n\<close> by \<open>n\<close> grids; cell \<open>(i, j)\<close> of the
  third is the \<^verbatim>\<open>discriminate\<close> score of the measures and levels of the pair that the
  meshgrid puts there (level \<open>j\<close> first, level \<open>i\<close> second, self-pairs included), and
  the cells \<open>(i, j)\<close> and \<open>(j, i)\<close> are equal for \<open>i \<noteq> j\<close>.
\<close>

theorem discrimination_combinations_square_symmetric:
  assumes "distinct (map fst infered_values)"
  shows "\<exists>xx yy zz. discrimination_combinations infered_values = Inr (xx, yy, zz) \<and>
     length xx = length infered_values \<and> length yy = length infered_values \<and>
     length zz = length infered_values \<and>
     (\<forall>i<length infered_values. \<forall>j<length infered_values.
        length (zz ! i) = length infered_values \<and>
        xx ! i ! j = fst (infered_values ! j) \<and>
        yy ! i ! j = fst (infered_values ! i) \<and>
        zz ! i ! j = discriminate (snd (infered_values ! j)) (snd (infered_values ! i)) (xx ! i ! j) (yy ! i ! j) \<and>
        (i \<noteq> j \<longrightarrow> zz ! i ! j = zz ! j ! i))"
proof -
  let ?iv = infered_values
  let ?n = "length ?iv"
  define L where "L = map fst ?iv"
  define zz where "zz = map (\<lambda>v. map (\<lambda>u. discriminate (the (map_of ?iv u)) (the (map_of ?iv v)) u v) L) L"
  have res: "discrimination_combinations ?iv = Inr (map (\<lambda>v. L) L, map (\<lambda>v. map (\<lambda>u. v) L) L, zz)"
    unfolding zz_def by (rule discrimination_combinations_grid[OF assms L_def])
  have lenL: "length L = ?n" by (simp add: L_def)
  have Lnth: "L ! i = fst (?iv ! i)" if "i < ?n" for i using that by (simp add: L_def)
  have val: "the (map_of ?iv (fst (?iv ! i))) = snd (?iv ! i)" if "i < ?n" for i
  proof -
    from that have "(fst (?iv ! i), snd (?iv ! i)) \<in> set ?iv" by simp
    with assms have "map_of ?iv (fst (?iv ! i)) = Some (snd (?iv ! i))" by (rule map_of_is_SomeI)
    then show ?thesis by simp
  qed
  have cell: "zz ! i ! j = discriminate (snd (?iv ! j)) (snd (?iv ! i)) (fst (?iv ! j)) (fst (?iv ! i))"
    if "i < ?n" "j < ?n" for i j
    using that lenL by (simp add: zz_def Lnth val)
  have neq: "fst (?iv ! j) \<noteq> fst (?iv ! i)" if "i < ?n" "j < ?n" "i \<noteq> j" for i j
    using that assms by (simp add: distinct_conv_nth)
  have sym: "zz ! i ! j = zz ! j ! i" if "i < ?n" "j < ?n" "i \<noteq> j" for i j
    using cell[OF that(1,2)] cell[OF that(2,1)] discriminate_swap[OF neq[OF that]] by simp
  have rowlen: "length (zz ! i) = ?n" if "i < ?n" for i
    using that lenL by (simp add: zz_def)
  have xx: "map (\<lambda>v. L) L ! i ! j = fst (?iv ! j)" if "i < ?n" "j < ?n" for i j
    using that lenL Lnth by simp
  have yy: "map (\<lambda>v. map (\<lambda>u. v) L) L ! i ! j = fst (?iv ! i)" if "i < ?n" "j < ?n" for i j
    using that lenL Lnth by simp
  have lenzz: "length zz = ?n" using lenL by (simp add: zz_def)
  have "discrimination_combinations ?iv = Inr (map (\<lambda>v. L) L, map (\<lambda>v. map (\<lambda>u. v) L) L, zz) \<and>
     length (map (\<lambda>v. L) L) = ?n \<and> length (map (\<lambda>v. map (\<lambda>u. v) L) L) = ?n \<and>
     length zz = ?n \<and>
     (\<forall>i<?n. \<forall>j<?n.
        length (zz ! i) = ?n \<and>
        map (\<lambda>v. L) L ! i ! j = fst (?iv ! j) \<and>
        map (\<lambda>v. map (\<lambda>u. v) L) L ! i ! j = fst (?iv ! i) \<and>
        zz ! i ! j = discriminate (snd (?iv ! j)) (snd (?iv ! i))
                       (map (\<lambda>v. L) L ! i ! j) (map (\<lambda>v. map (\<lambda>u. v) L) L ! i ! j) \<and>
        (i \<noteq> j \<longrightarrow> zz ! i ! j = zz ! j ! i))"
    using res lenL lenzz rowlen xx yy cell sym by simp
  then show ?thesis by blast
qed

text \<open>The example of the specification: the levels 1 and 2 with measures \<open>[1, 1]\<close> and \<open>[5, 5]\<close>.\<close>

theorem discrimination_combinations_square_symmetric_witness:
  "distinct (map fst [(1::real, [Fin 1, Fin 1]), (2, [Fin 5, Fin 5])]) \<and>
   discrimination_combinations [(1, [Fin 1, Fin 1]), (2, [Fin 5, Fin 5])] =
     Inr ([[1, 2], [1, 2]], [[1, 1], [2, 2]], [[Fin (1 / 2), Fin 1], [Fin 1, Fin (1 / 2)]])"
proof -
  have d: "distinct (map fst [(1::real, [Fin 1, Fin 1]), (2, [Fin 5, Fin 5])])" by simp
  have e: "discrimination_combinations [(1, [Fin 1, Fin 1]), (2, [Fin 5, Fin 5])] =
     Inr ([[1, 2], [1, 2]], [[1, 1], [2, 2]], [[Fin (1 / 2), Fin 1], [Fin 1, Fin (1 / 2)]])"
    by code_simp
  show ?thesis
    using d e discrimination_combinations_square_symmetric[OF d] by simp
qed

section \<open>Properties of the persistence helpers\<close>

text \<open>
  C8: when \<^verbatim>\<open>pickle.load\<close> inverts \<^verbatim>\<open>pickle.dump\<close> and \<^verbatim>\<open>save\<close> succeeds, \<^verbatim>\<open>load\<close> with
  the same name and type returns the pair that was saved. Equality is structural:
  a \<open>nan\<close> entry is equal to itself here, unlike under Python's \<^verbatim>\<open>==\<close>.
\<close>

theorem save_load_roundtrip:
  assumes "\<And>x. loads (dumps x) = Inr x"
    and "save dumps fs sim_name sim_type spike_times infered_values = Inr fs'"
  shows "load loads fs' sim_name sim_type = Inr (spike_times, infered_values)"
proof -
  let ?f = "pkl_path sim_name sim_type"
  from assms(2) have "fs' = fs\<lparr>files := (files fs)(?f \<mapsto> dumps (spike_times, infered_values))\<rparr>"
    by (simp add: save_def Let_def split: if_splits)
  then have "files fs' ?f = Some (dumps (spike_times, infered_values))" by simp
  then show ?thesis by (simp add: load_def assms(1))
qed

theorem save_load_roundtrip_witness:
  "save (\<lambda>x. x) \<lparr>writable = (\<lambda>p. p = ''save_data/run_f.pkl''), files = Map.empty\<rparr> ''run'' ''f''
        [(10::real, [(0::nat, [1::real, 2])])] [(10::real, [NaN, Fin 100])] =
     Inr \<lparr>writable = (\<lambda>p. p = ''save_data/run_f.pkl''),
          files = [''save_data/run_f.pkl'' \<mapsto> ([(10, [(0, [1, 2])])], [(10, [NaN, Fin 100])])]\<rparr> \<and>
   load Inr \<lparr>writable = (\<lambda>p. p = ''save_data/run_f.pkl''),
          files = [''save_data/run_f.pkl'' \<mapsto> ([(10::real, [(0::nat, [1::real, 2])])], [(10::real, [NaN, Fin 100])])]\<rparr>
        ''run'' ''f'' = (Inr ([(10, [(0, [1, 2])])], [(10, [NaN, Fin 100])]) :: exn + _)"
proof -
  have s: "save (\<lambda>x. x) \<lparr>writable = (\<lambda>p. p = ''save_data/run_f.pkl''), files = Map.empty\<rparr> ''run'' ''f''
        [(10::real, [(0::nat, [1::real, 2])])] [(10::real, [NaN, Fin 100])] =
     Inr \<lparr>writable = (\<lambda>p. p = ''save_data/run_f.pkl''),
          files = [''save_data/run_f.pkl'' \<mapsto> ([(10, [(0, [1, 2])])], [(10, [NaN, Fin 100])])]\<rparr>"
    by (simp add: save_def pkl_path_def path_div_def Let_def)
  have l: "\<And>x :: (real \<times> (nat \<times> real list) list) list \<times> (real \<times> npfloat list) list. (Inr ((\<lambda>x. x) x) :: exn + _) = Inr x" by simp
  show ?thesis using s save_load_roundtrip[of Inr "\<lambda>x. x", OF l s] by simp
qed


section \<open>Properties of the sweep drivers\<close>

lemma frequency_trial_effect:
  assumes "frequency_trial sim unit a0 a1 t_max t1 t2 prom ir ts (m, g, st, iv) freq = (m', g', st', iv')"
  shows "calls m' = calls m @
           [Restore ''initial'', Set_f (Scalar (freq * Hz)),
            Set_stimulus_current
              (Array (map (\<lambda>i. (a0 + (a1 - a0) * snd g (fst g + i)) * unit) [0..<neurons_N m])),
            Run t_max]"
    and "g' = (fst g + neurons_N m, snd g)"
    and "neurons_N m' = neurons_N m"
  using assms
  by (auto simp add: frequency_trial_def Let_def np_random_uniform_def run_def set_f_def restore_def
      set_stimulus_current_def comp_def split: prod.splits option.splits)

lemma amplitude_trial_effect:
  assumes "amplitude_trial sim unit f0 f1 t_max (m, g, st, iv) amp = (m', g', st', iv')"
  shows "calls m' = calls m @
           [Restore ''initial'', Set_stimulus_current (Scalar (amp * unit)),
            Set_f (Array (map (\<lambda>i. (f0 + (f1 - f0) * snd g (fst g + i)) * Hz) [0..<neurons_N m])),
            Run t_max]"
    and "g' = (fst g + neurons_N m, snd g)"
    and "neurons_N m' = neurons_N m"
  using assms
  by (auto simp add: amplitude_trial_def Let_def np_random_uniform_def run_def set_f_def restore_def
      set_stimulus_current_def comp_def split: prod.splits option.splits)

lemma frequency_sweep_effect:
  assumes "foldl (frequency_trial sim unit a0 a1 t_max t1 t2 prom ir ts) (m, g, st, iv) levels = (m', g', st', iv')"
  shows "calls m' = calls m @ concat (map (\<lambda>k.
           [Restore ''initial'', Set_f (Scalar (levels ! k * Hz)),
            Set_stimulus_current
              (Array (map (\<lambda>i. (a0 + (a1 - a0) * snd g (fst g + k * neurons_N m + i)) * unit) [0..<neurons_N m])),
            Run t_max]) [0..<length levels]) \<and>
         g' = (fst g + length levels * neurons_N m, snd g) \<and> neurons_N m' = neurons_N m"
  using assms
proof (induction levels arbitrary: m' g' st' iv' rule: rev_induct)
  case Nil
  then show ?case by simp
next
  case (snoc x xs)
  obtain m1 g1 st1 iv1 where
    mid: "foldl (frequency_trial sim unit a0 a1 t_max t1 t2 prom ir ts) (m, g, st, iv) xs = (m1, g1, st1, iv1)"
    by (metis prod_cases4)
  from snoc.IH[OF mid] have
    c1: "calls m1 = calls m @ concat (map (\<lambda>k.
           [Restore ''initial'', Set_f (Scalar (xs ! k * Hz)),
            Set_stimulus_current
              (Array (map (\<lambda>i. (a0 + (a1 - a0) * snd g (fst g + k * neurons_N m + i)) * unit) [0..<neurons_N m])),
            Run t_max]) [0..<length xs])"
    and g1: "g1 = (fst g + length xs * neurons_N m, snd g)" and n1: "neurons_N m1 = neurons_N m"
    by simp_all
  from snoc.prems mid have
    step: "frequency_trial sim unit a0 a1 t_max t1 t2 prom ir ts (m1, g1, st1, iv1) x = (m', g', st', iv')"
    by simp
  note e = frequency_trial_effect[OF step]
  define B where "B = (\<lambda>ys k.
           [Restore ''initial'', Set_f (Scalar (ys ! k * Hz)),
            Set_stimulus_current
              (Array (map (\<lambda>i. (a0 + (a1 - a0) * snd g (fst g + k * neurons_N m + i)) * unit) [0..<neurons_N m])),
            Run t_max])"
  have c1': "calls m1 = calls m @ concat (map (B xs) [0..<length xs])"
    using c1 by (simp add: B_def)
  have same: "map (B (xs @ [x])) [0..<length xs] = map (B xs) [0..<length xs]"
    by (rule map_cong) (simp_all add: B_def nth_append)
  have last: "calls m' = calls m1 @ B (xs @ [x]) (length xs)"
    using e(1) g1 n1 by (simp add: B_def)
  have "calls m' = calls m @ concat (map (B (xs @ [x])) [0..<length (xs @ [x])])"
    using last c1' by (simp add: same)
  then have "calls m' = calls m @ concat (map (\<lambda>k.
           [Restore ''initial'', Set_f (Scalar ((xs @ [x]) ! k * Hz)),
            Set_stimulus_current
              (Array (map (\<lambda>i. (a0 + (a1 - a0) * snd g (fst g + k * neurons_N m + i)) * unit) [0..<neurons_N m])),
            Run t_max]) [0..<length (xs @ [x])])"
    unfolding B_def .
  moreover have "g' = (fst g + length (xs @ [x]) * neurons_N m, snd g)"
    using e(2) g1 n1 by simp
  moreover have "neurons_N m' = neurons_N m" using e(3) n1 by simp
  ultimately show ?case by blast
qed

lemma amplitude_sweep_effect:
  assumes "foldl (amplitude_trial sim unit f0 f1 t_max) (m, g, st, iv) levels = (m', g', st', iv')"
  shows "calls m' = calls m @ concat (map (\<lambda>k.
           [Restore ''initial'', Set_stimulus_current (Scalar (levels ! k * unit)),
            Set_f (Array (map (\<lambda>i. (f0 + (f1 - f0) * snd g (fst g + k * neurons_N m + i)) * Hz) [0..<neurons_N m])),
            Run t_max]) [0..<length levels]) \<and>
         g' = (fst g + length levels * neurons_N m, snd g) \<and> neurons_N m' = neurons_N m"
  using assms
proof (induction levels arbitrary: m' g' st' iv' rule: rev_induct)
  case Nil
  then show ?case by simp
next
  case (snoc x xs)
  obtain m1 g1 st1 iv1 where
    mid: "foldl (amplitude_trial sim unit f0 f1 t_max) (m, g, st, iv) xs = (m1, g1, st1, iv1)"
    by (metis prod_cases4)
  from snoc.IH[OF mid] have
    c1: "calls m1 = calls m @ concat (map (\<lambda>k.
           [Restore ''initial'', Set_stimulus_current (Scalar (xs ! k * unit)),
            Set_f (Array (map (\<lambda>i. (f0 + (f1 - f0) * snd g (fst g + k * neurons_N m + i)) * Hz) [0..<neurons_N m])),
            Run t_max]) [0..<length xs])"
    and g1: "g1 = (fst g + length xs * neurons_N m, snd g)" and n1: "neurons_N m1 = neurons_N m"
    by simp_all
  from snoc.prems mid have
    step: "amplitude_trial sim unit f0 f1 t_max (m1, g1, st1, iv1) x = (m', g', st', iv')"
    by simp
  note e = amplitude_trial_effect[OF step]
  define B where "B = (\<lambda>ys k.
           [Restore ''initial'', Set_stimulus_current (Scalar (ys ! k * unit)),
            Set_f (Array (map (\<lambda>i. (f0 + (f1 - f0) * snd g (fst g + k * neurons_N m + i)) * Hz) [0..<neurons_N m])),
            Run t_max])"
  have c1': "calls m1 = calls m @ concat (map (B xs) [0..<length xs])"
    using c1 by (simp add: B_def)
  have same: "map (B (xs @ [x])) [0..<length xs] = map (B xs) [0..<length xs]"
    by (rule map_cong) (simp_all add: B_def nth_append)
  have last: "calls m' = calls m1 @ B (xs @ [x]) (length xs)"
    using e(1) g1 n1 by (simp add: B_def)
  have "calls m' = calls m @ concat (map (B (xs @ [x])) [0..<length (xs @ [x])])"
    using last c1' by (simp add: same)
  then have "calls m' = calls m @ concat (map (\<lambda>k.
           [Restore ''initial'', Set_stimulus_current (Scalar ((xs @ [x]) ! k * unit)),
            Set_f (Array (map (\<lambda>i. (f0 + (f1 - f0) * snd g (fst g + k * neurons_N m + i)) * Hz) [0..<neurons_N m])),
            Run t_max]) [0..<length (xs @ [x])])"
    unfolding B_def .
  moreover have "g' = (fst g + length (xs @ [x]) * neurons_N m, snd g)"
    using e(2) g1 n1 by simp
  moreover have "neurons_N m' = neurons_N m" using e(3) n1 by simp
  ultimately show ?case by blast
qed


lemma np_random_uniform_range:
  assumes "\<And>i. 0 \<le> snd g i \<and> snd g i < 1" and "low < high"
    and "v \<in> set (fst (np_random_uniform low high n g))"
  shows "low \<le> v \<and> v < high"
proof -
  from assms(3) obtain i where v: "v = low + (high - low) * snd g (fst g + i)"
    by (auto simp: np_random_uniform_def)
  let ?u = "snd g (fst g + i)"
  have u: "0 \<le> ?u" "?u < 1" using assms(1) by simp_all
  have "0 \<le> (high - low) * ?u" using u(1) assms(2) by simp
  moreover have "(high - low) * ?u < (high - low) * 1"
    using u(2) assms(2) by (intro mult_strict_left_mono) simp_all
  ultimately show ?thesis using v by simp
qed

text \<open>
  C9, as stated, fails: in a run of the frequency sweep the stimulus amplitude is an
  array of \<^verbatim>\<open>model.neurons.N\<close> draws, one per unit. With two units and a generator whose
  first variates are 0 and 1/2, the units get the amplitudes 50 and 75 in the same run,
  and the run consumes two variates.
\<close>

theorem frequency_sweep_amplitude_per_unit_counterexample:
  "evaluate_frequency_discrimination (\<lambda>h. []) \<lparr>neurons_N = 2, calls = [], spike_train = []\<rparr>
     (0, \<lambda>i. real i / (real i + 1)) 10 10 1 1 50 100 10 None None None (1 / 4) (1 / 20) =
   Inr (\<lparr>neurons_N = 2,
         calls = [Store ''initial'', Restore ''initial'', Set_f (Scalar 10),
                  Set_stimulus_current (Array [50, 75]), Run 10],
         spike_train = []\<rparr>,
        (2, \<lambda>i. real i / (real i + 1)), [(10, [])], [])"
  by (simp add: evaluate_frequency_discrimination_def create_param_range_def np_arange_def
      frequency_trial_def Let_def np_random_uniform_def store_def restore_def set_f_def
      set_stimulus_current_def run_def Hz_def upt_rec)

text \<open>
  C9, amended: in every iteration of \<^verbatim>\<open>evaluate_frequency_discrimination\<close> the model is
  restored, its frequency is set to the one swept value, and its stimulus current is
  set to an array of \<^verbatim>\<open>neurons.N\<close> fresh draws from \<open>[a0, a1)\<close>, one per unit (iteration
  \<open>k\<close> reads the variates \<open>k * N, \<dots>, k * N + N - 1\<close> after the start position); in
  \<^verbatim>\<open>evaluate_amplitude_discrimination\<close> the stimulus current is the one swept value and
  the frequency is an array of \<^verbatim>\<open>neurons.N\<close> fresh draws from \<open>[f0, f1)\<close>, one per unit.
  That the draws are uniformly distributed is not expressed; they lie in the interval
  when the generator's variates lie in \<open>[0, 1)\<close>.
\<close>

theorem sweep_nuisance_drawn_per_unit:
  "(evaluate_frequency_discrimination sim m g f0 f1 res unit a0 a1 t_max t1 t2 prom ir ts = Inr (m', g', st, iv) \<longrightarrow>
      (\<exists>levels. create_param_range f0 f1 res = Inr levels \<and>
         calls m' = calls m @ Store ''initial'' # concat (map (\<lambda>k.
           [Restore ''initial'', Set_f (Scalar (levels ! k * Hz)),
            Set_stimulus_current
              (Array (map (\<lambda>i. (a0 + (a1 - a0) * snd g (fst g + k * neurons_N m + i)) * unit) [0..<neurons_N m])),
            Run t_max]) [0..<length levels]) \<and>
         g' = (fst g + length levels * neurons_N m, snd g))) \<and>
   (evaluate_amplitude_discrimination sim m g b0 b1 res unit f0 f1 t_max = Inr (m', g', st, ia) \<longrightarrow>
      (\<exists>levels. create_param_range b0 b1 res = Inr levels \<and>
         calls m' = calls m @ Store ''initial'' # concat (map (\<lambda>k.
           [Restore ''initial'', Set_stimulus_current (Scalar (levels ! k * unit)),
            Set_f (Array (map (\<lambda>i. (f0 + (f1 - f0) * snd g (fst g + k * neurons_N m + i)) * Hz) [0..<neurons_N m])),
            Run t_max]) [0..<length levels]) \<and>
         g' = (fst g + length levels * neurons_N m, snd g))) \<and>
   ((\<forall>i. 0 \<le> snd g i \<and> snd g i < 1) \<and> low < high \<longrightarrow>
      length (fst (np_random_uniform low high n g)) = n \<and>
      (\<forall>v \<in> set (fst (np_random_uniform low high n g)). low \<le> v \<and> v < high))"
proof (intro conjI impI)
  assume r: "evaluate_frequency_discrimination sim m g f0 f1 res unit a0 a1 t_max t1 t2 prom ir ts = Inr (m', g', st, iv)"
  then obtain levels where l: "create_param_range f0 f1 res = Inr levels"
    by (cases "create_param_range f0 f1 res") (simp_all add: evaluate_frequency_discrimination_def)
  with r have "foldl (frequency_trial sim unit a0 a1 t_max t1 t2 prom ir ts)
                 (store m ''initial'', g, [], []) levels = (m', g', st, iv)"
    by (simp add: evaluate_frequency_discrimination_def)
  from frequency_sweep_effect[OF this] l
  show "\<exists>levels. create_param_range f0 f1 res = Inr levels \<and>
         calls m' = calls m @ Store ''initial'' # concat (map (\<lambda>k.
           [Restore ''initial'', Set_f (Scalar (levels ! k * Hz)),
            Set_stimulus_current
              (Array (map (\<lambda>i. (a0 + (a1 - a0) * snd g (fst g + k * neurons_N m + i)) * unit) [0..<neurons_N m])),
            Run t_max]) [0..<length levels]) \<and>
         g' = (fst g + length levels * neurons_N m, snd g)"
    by (simp add: store_def)
next
  assume r: "evaluate_amplitude_discrimination sim m g b0 b1 res unit f0 f1 t_max = Inr (m', g', st, ia)"
  then obtain levels where l: "create_param_range b0 b1 res = Inr levels"
    by (cases "create_param_range b0 b1 res") (simp_all add: evaluate_amplitude_discrimination_def)
  with r have "foldl (amplitude_trial sim unit f0 f1 t_max)
                 (store m ''initial'', g, [], []) levels = (m', g', st, ia)"
    by (simp add: evaluate_amplitude_discrimination_def)
  from amplitude_sweep_effect[OF this] l
  show "\<exists>levels. create_param_range b0 b1 res = Inr levels \<and>
         calls m' = calls m @ Store ''initial'' # concat (map (\<lambda>k.
           [Restore ''initial'', Set_stimulus_current (Scalar (levels ! k * unit)),
            Set_f (Array (map (\<lambda>i. (f0 + (f1 - f0) * snd g (fst g + k * neurons_N m + i)) * Hz) [0..<neurons_N m])),
            Run t_max]) [0..<length levels]) \<and>
         g' = (fst g + length levels * neurons_N m, snd g)"
    by (simp add: store_def)
next
  assume "(\<forall>i. 0 \<le> snd g i \<and> snd g i < 1) \<and> low < high"
  then show "length (fst (np_random_uniform low high n g)) = n"
    by (simp add: np_random_uniform_def)
next
  assume a: "(\<forall>i. 0 \<le> snd g i \<and> snd g i < 1) \<and> low < high"
  show "\<forall>v \<in> set (fst (np_random_uniform low high n g)). low \<le> v \<and> v < high"
    using np_random_uniform_range[of g low high _ n] a by blast
qed

theorem sweep_nuisance_drawn_per_unit_witness:
  "evaluate_amplitude_discrimination (\<lambda>h. [(0, [1, 2]), (1, [])])
     \<lparr>neurons_N = 2, calls = [], spike_train = []\<rparr>
     (0, \<lambda>i. real i / (real i + 1)) 1 2 1 1 100 600 10 =
   Inr (\<lparr>neurons_N = 2,
         calls = [Store ''initial'',
                  Restore ''initial'', Set_stimulus_current (Scalar 1),
                  Set_f (Array [100, 350]), Run 10,
                  Restore ''initial'', Set_stimulus_current (Scalar 2),
                  Set_f (Array [1300 / 3, 475]), Run 10],
         spike_train = [(0, [1, 2]), (1, [])]\<rparr>,
        (4, \<lambda>i. real i / (real i + 1)),
        [(1, [(0, [1, 2]), (1, [])]), (2, [(0, [1, 2]), (1, [])])],
        [(1, [2, 0]), (2, [2, 0])])"
proof -
  have e: "evaluate_amplitude_discrimination (\<lambda>h. [(0, [1, 2]), (1, [])])
     \<lparr>neurons_N = 2, calls = [], spike_train = []\<rparr>
     (0, \<lambda>i. real i / (real i + 1)) 1 2 1 1 100 600 10 =
   Inr (\<lparr>neurons_N = 2,
         calls = [Store ''initial'',
                  Restore ''initial'', Set_stimulus_current (Scalar 1),
                  Set_f (Array [100, 350]), Run 10,
                  Restore ''initial'', Set_stimulus_current (Scalar 2),
                  Set_f (Array [1300 / 3, 475]), Run 10],
         spike_train = [(0, [1, 2]), (1, [])]\<rparr>,
        (4, \<lambda>i. real i / (real i + 1)),
        [(1, [(0, [1, 2]), (1, [])]), (2, [(0, [1, 2]), (1, [])])],
        [(1, [2, 0]), (2, [2, 0])])"
    by (simp add: evaluate_amplitude_discrimination_def create_param_range_def np_arange_def
        amplitude_trial_def Let_def np_random_uniform_def store_def restore_def set_f_def
        set_stimulus_current_def run_def Hz_def upt_rec infer_amplitude_def)
  note t = sweep_nuisance_drawn_per_unit[where sim = "\<lambda>h. [(0, [1, 2]), (1, [])]"
      and m = "\<lparr>neurons_N = 2, calls = [], spike_train = []\<rparr>"
      and g = "(0, \<lambda>i. real i / (real i + 1))" and ?b0.0 = 1 and ?b1.0 = 2 and res = 1
      and unit = 1 and ?f0.0 = 100 and ?f1.0 = 600 and t_max = 10, THEN conjunct2, THEN conjunct1,
      rule_format, OF e]
  show ?thesis using t by (simp only: e)
qed

section \<open>Properties of the frequency inference\<close>

lemma np_diff_short: "length xs < 2 \<Longrightarrow> np_diff xs = []"
  by (cases xs rule: np_diff.cases) simp_all

lemma isi_density_too_few_spikes:
  "length spike_times < 2 \<Longrightarrow> \<exists>e. isi_density spike_times t1 res = Inl e"
  by (cases "np_arange 0 350 res") (simp_all add: isi_density_def np_diff_short sum_rows_def)

lemma peak_density_no_diffs: "\<exists>e. peak_density [] t2 time_step = Inl e"
  by (cases "np_arange 0 15 time_step") (simp_all add: peak_density_def sum_rows_def)

lemma infer_frequency_few_peaks:
  assumes "isi_density spike_times t1 res = Inr (isi_bin, isi_hist_g)"
    and "length (find_peaks isi_hist_g prom) < 2"
  shows "infer_frequency spike_times t1 t2 res prom time_step = NaN"
proof -
  have "np_diff (map (\<lambda>k. Fin (isi_bin ! k)) (find_peaks isi_hist_g prom)) = []"
    using assms(2) by (simp add: np_diff_short)
  moreover obtain e where "peak_density [] t2 time_step = Inl e"
    using peak_density_no_diffs by blast
  ultimately show ?thesis
    using assms(1) by (simp add: infer_frequency_def infer_frequency_try_def)
qed

text \<open>
  C5: \<^verbatim>\<open>infer_frequency\<close> returns a value on every input. Whenever a step of the
  pipeline raises, the result is \<open>nan\<close>; in particular with fewer than two spikes (no
  inter-spike interval, \<^verbatim>\<open>np.vstack\<close> of an empty list raises), and with fewer than two
  detected peaks (no peak at all, or one peak and so an empty array of differences).
\<close>

theorem infer_frequency_failure_is_nan:
  "(infer_frequency_try spike_times t1 t2 res prom time_step = Inl e \<longrightarrow>
      infer_frequency spike_times t1 t2 res prom time_step = NaN) \<and>
   (length spike_times < 2 \<longrightarrow> infer_frequency spike_times t1 t2 res prom time_step = NaN) \<and>
   (isi_density spike_times t1 res = Inr (isi_bin, isi_hist_g) \<and>
      length (find_peaks isi_hist_g prom) < 2 \<longrightarrow>
      infer_frequency spike_times t1 t2 res prom time_step = NaN)"
proof (intro conjI impI)
  assume "infer_frequency_try spike_times t1 t2 res prom time_step = Inl e"
  then show "infer_frequency spike_times t1 t2 res prom time_step = NaN"
    by (simp add: infer_frequency_def)
next
  assume "length spike_times < 2"
  then obtain e' where "isi_density spike_times t1 res = Inl e'"
    using isi_density_too_few_spikes by blast
  then show "infer_frequency spike_times t1 t2 res prom time_step = NaN"
    by (simp add: infer_frequency_def infer_frequency_try_def)
next
  assume "isi_density spike_times t1 res = Inr (isi_bin, isi_hist_g) \<and>
      length (find_peaks isi_hist_g prom) < 2"
  then show "infer_frequency spike_times t1 t2 res prom time_step = NaN"
    using infer_frequency_few_peaks by blast
qed

theorem infer_frequency_failure_is_nan_witness:
  "length [Fin 5] < 2 \<and> infer_frequency [Fin 5] (6 / 10) (Some (3 / 10)) (1 / 10) (Some (5 / 10)) (1 / 100) = NaN"
proof -
  have h: "length [Fin 5] < 2" by simp
  show ?thesis
    using h infer_frequency_failure_is_nan[where spike_times = "[Fin 5]", THEN conjunct2, THEN conjunct1, rule_format, OF h]
    by simp
qed

lemma positive_finite_Fin [simp]: "positive_finite (Fin r) = (0 < r)"
  by (simp add: positive_finite_def)

lemma positive_finiteE: "positive_finite v \<Longrightarrow> (\<And>r. v = Fin r \<Longrightarrow> 0 < r \<Longrightarrow> P) \<Longrightarrow> P"
  by (cases v) (simp_all add: positive_finite_def)

lemma gaussian_positive:
  assumes "0 < sig"
  shows "positive_finite (gaussian (Fin x) (Fin mu) (Fin sig))"
  using assms by (simp add: gaussian_def fsub_def)

lemma np_diff_finite: "list_all isfinite xs \<Longrightarrow> list_all isfinite (np_diff xs)"
proof (induction xs rule: np_diff.induct)
  case (1 x y xs)
  then obtain a b where "x = Fin a" "y = Fin b"
    by (cases x; cases y) simp_all
  with 1 show ?case by (simp add: fsub_def)
qed simp_all

lemma map2_fadd_positive:
  "list_all positive_finite a \<Longrightarrow> list_all positive_finite b \<Longrightarrow>
   list_all positive_finite (map2 fadd a b)"
proof (induction a arbitrary: b)
  case Nil
  then show ?case by simp
next
  case (Cons v a)
  show ?case
  proof (cases b)
    case Nil
    then show ?thesis by simp
  next
    case (Cons w b')
    with Cons.prems obtain r s where "v = Fin r" "0 < r" "w = Fin s" "0 < s"
      by (auto elim!: positive_finiteE)
    with Cons.IH[of b'] Cons.prems Cons show ?thesis by simp
  qed
qed

lemma foldl_map2_fadd_positive:
  "list_all positive_finite r \<Longrightarrow> (\<And>row. row \<in> set rs \<Longrightarrow> list_all positive_finite row) \<Longrightarrow>
   list_all positive_finite (foldl (\<lambda>acc row. map2 fadd acc row) r rs)"
  by (induction rs arbitrary: r) (simp_all add: map2_fadd_positive)

lemma foldl_fadd_Fin:
  "list_all isfinite h \<Longrightarrow> foldl fadd (Fin a) h = Fin (a + sum_list (map the_fin h))"
proof (induction h arbitrary: a)
  case Nil
  then show ?case by simp
next
  case (Cons v h)
  then obtain r where "v = Fin r" by (cases v) simp_all
  with Cons show ?case by (simp add: add.assoc)
qed

lemma positive_finite_isfinite: "list_all positive_finite h \<Longrightarrow> list_all isfinite h"
  by (simp add: list_all_iff positive_finite_def)

lemma sum_list_positive:
  "list_all positive_finite h \<Longrightarrow> h \<noteq> [] \<Longrightarrow> 0 < sum_list (map the_fin h)"
proof (induction h)
  case Nil
  then show ?case by simp
next
  case (Cons v h)
  then have v: "0 < the_fin v" by (simp add: positive_finite_def)
  show ?case
  proof (cases "h = []")
    case True
    with v show ?thesis by simp
  next
    case False
    with Cons have "0 < sum_list (map the_fin h)" by simp
    with v show ?thesis by simp
  qed
qed

lemma sum_list_divide: "(\<Sum>v\<leftarrow>h. f v / c) = (\<Sum>v\<leftarrow>h. f v) / (c::real)"
  by (induction h) (simp_all add: add_divide_distrib)

lemma normalised_density:
  assumes "list_all positive_finite h"
  shows "list_all positive_finite (map (\<lambda>v. fdiv v (np_sum h)) h) \<and>
         sum_list (map the_fin (map (\<lambda>v. fdiv v (np_sum h)) h)) \<le> 1"
proof (cases "h = []")
  case True
  then show ?thesis by simp
next
  case False
  let ?S = "sum_list (map the_fin h)"
  have S: "np_sum h = Fin ?S"
    using foldl_fadd_Fin[OF positive_finite_isfinite[OF assms], of 0] by (simp add: np_sum_def)
  have Spos: "0 < ?S" using sum_list_positive[OF assms False] .
  have each: "fdiv v (Fin ?S) = Fin (the_fin v / ?S) \<and> 0 < the_fin v / ?S" if "v \<in> set h" for v
  proof -
    from that assms have "positive_finite v" by (simp add: list_all_iff)
    then obtain r where "v = Fin r" "0 < r" by (rule positive_finiteE)
    with Spos show ?thesis by simp
  qed
  have pos: "list_all positive_finite (map (\<lambda>v. fdiv v (np_sum h)) h)"
    using each by (simp add: S list_all_iff)
  have "map the_fin (map (\<lambda>v. fdiv v (np_sum h)) h) = map (\<lambda>v. the_fin v / ?S) h"
    unfolding S map_map by (rule map_cong[OF refl]) (simp add: each)
  then have "sum_list (map the_fin (map (\<lambda>v. fdiv v (np_sum h)) h)) =
             sum_list (map (\<lambda>v. the_fin v / ?S) h)"
    by (rule arg_cong)
  also have "\<dots> = ?S / ?S" by (rule sum_list_divide)
  also have "\<dots> = 1" using Spos by simp
  finally show ?thesis using pos by simp
qed

lemma look_ahead_le: "i_ahead \<le> i_max \<Longrightarrow> look_ahead x i i_ahead i_max \<le> i_max"
proof (induction x i i_ahead i_max rule: look_ahead.induct)
  case (1 x i i_ahead i_max)
  show ?case
  proof (cases "i_ahead < i_max \<and> feq (x ! i_ahead) (x ! i)")
    case True
    with "1" have "look_ahead x i (i_ahead + 1) i_max \<le> i_max" by simp
    moreover from True have "look_ahead x i i_ahead i_max = look_ahead x i (i_ahead + 1) i_max"
      by (subst look_ahead.simps) simp
    ultimately show ?thesis by simp
  next
    case False
    then have "look_ahead x i i_ahead i_max = i_ahead"
      by (subst look_ahead.simps) auto
    with "1.prems" show ?thesis by simp
  qed
qed

lemma local_maxima_from_bounds:
  "p \<in> set (local_maxima_from x i i_max) \<Longrightarrow> i \<le> p \<and> p < i_max"
proof (induction x i i_max rule: local_maxima_from.induct)
  case (1 x i i_max)
  let ?la = "look_ahead x i (i + 1) i_max"
  show ?case
  proof (cases "i < i_max")
    case False
    with "1.prems" show ?thesis by (subst (asm) local_maxima_from.simps) simp
  next
    case lt: True
    have ge: "i + 1 \<le> ?la" by (rule look_ahead_ge)
    have le: "?la \<le> i_max" using lt by (intro look_ahead_le) simp
    show ?thesis
    proof (cases "flt (x ! (i - 1)) (x ! i)")
      case rise: True
      show ?thesis
      proof (cases "flt (x ! ?la) (x ! i)")
        case True
        with lt rise "1.prems"
        have "p = (i + (?la - 1)) div 2 \<or> p \<in> set (local_maxima_from x (?la + 1) i_max)"
          by (subst (asm) local_maxima_from.simps) simp
        then show ?thesis
        proof
          assume "p = (i + (?la - 1)) div 2"
          with ge le lt show ?thesis by arith
        next
          assume "p \<in> set (local_maxima_from x (?la + 1) i_max)"
          with "1.IH"(1)[OF lt rise True] ge show ?thesis by simp
        qed
      next
        case False
        with lt rise "1.prems" have "p \<in> set (local_maxima_from x (i + 1) i_max)"
          by (subst (asm) local_maxima_from.simps) simp
        with "1.IH"(2)[OF lt rise False] show ?thesis by simp
      qed
    next
      case False
      with lt "1.prems" have "p \<in> set (local_maxima_from x (i + 1) i_max)"
        by (subst (asm) local_maxima_from.simps) simp
      with "1.IH"(3)[OF lt False] show ?thesis by simp
    qed
  qed
qed

lemma local_maxima_from_sorted: "sorted_wrt (<) (local_maxima_from x i i_max)"
proof (induction x i i_max rule: local_maxima_from.induct)
  case (1 x i i_max)
  let ?la = "look_ahead x i (i + 1) i_max"
  show ?case
  proof (cases "i < i_max")
    case False
    then show ?thesis by (subst local_maxima_from.simps) simp
  next
    case lt: True
    have ge: "i + 1 \<le> ?la" by (rule look_ahead_ge)
    show ?thesis
    proof (cases "flt (x ! (i - 1)) (x ! i)")
      case rise: True
      show ?thesis
      proof (cases "flt (x ! ?la) (x ! i)")
        case True
        have "(i + (?la - 1)) div 2 < q" if "q \<in> set (local_maxima_from x (?la + 1) i_max)" for q
          using local_maxima_from_bounds[OF that] ge by arith
        with "1.IH"(1)[OF lt rise True] lt rise True show ?thesis
          by (subst local_maxima_from.simps) simp
      next
        case False
        with "1.IH"(2)[OF lt rise False] lt rise show ?thesis
          by (subst local_maxima_from.simps) simp
      qed
    next
      case False
      with "1.IH"(3)[OF lt False] lt show ?thesis
        by (subst local_maxima_from.simps) simp
    qed
  qed
qed

lemma scan_min_member: "scan_min h seg m = m \<or> scan_min h seg m \<in> set seg"
proof (induction seg arbitrary: m)
  case Nil
  then show ?case by simp
next
  case (Cons v seg)
  show ?case
    using Cons.IH[of "if flt v m then v else m"] by auto
qed

lemma peak_prominence_below_height:
  assumes "list_all positive_finite x" and "p < length x"
  shows "\<exists>r. peak_prominence x p = Fin r \<and> r < the_fin (x ! p)"
proof -
  let ?h = "x ! p"
  let ?l = "scan_min ?h (rev (take (p + 1) x)) ?h"
  let ?r = "scan_min ?h (drop p x) ?h"
  have mem: "v \<in> set x \<Longrightarrow> positive_finite v" for v
    using assms(1) by (simp add: list_all_iff)
  have h: "positive_finite ?h" using assms(2) mem by simp
  have "?l = ?h \<or> ?l \<in> set (rev (take (p + 1) x))" by (rule scan_min_member)
  then have l: "positive_finite ?l" using h mem by (auto dest: in_set_takeD)
  have "?r = ?h \<or> ?r \<in> set (drop p x)" by (rule scan_min_member)
  then have r: "positive_finite ?r" using h mem by (auto dest: in_set_dropD)
  have "positive_finite (fmax ?l ?r)" using l r by (simp add: fmax_def)
  then obtain b where b: "fmax ?l ?r = Fin b" "0 < b" by (rule positive_finiteE)
  from h obtain a where a: "?h = Fin a" by (rule positive_finiteE)
  have "peak_prominence x p = Fin (a - b)"
    using a b(1) by (simp add: peak_prominence_def Let_def fsub_def)
  with a b(2) show ?thesis by simp
qed

lemma two_entries_le_sum:
  fixes ys :: "real list"
  assumes "\<And>y. y \<in> set ys \<Longrightarrow> 0 \<le> y" and "p < q" and "q < length ys"
  shows "ys ! p + ys ! q \<le> sum_list ys"
proof -
  have "sum_list ys = (\<Sum>i = 0..<length ys. ys ! i)" by (rule sum_list_sum_nth)
  moreover have "(\<Sum>i\<in>{p, q}. ys ! i) \<le> (\<Sum>i = 0..<length ys. ys ! i)"
    using assms by (intro sum_mono2) auto
  moreover have "(\<Sum>i\<in>{p, q}. ys ! i) = ys ! p + ys ! q" using assms(2) by simp
  ultimately show ?thesis by simp
qed

lemma find_peaks_at_most_one:
  assumes pos: "list_all positive_finite x"
    and total: "sum_list (map the_fin x) \<le> 1"
    and prom: "1 / 2 \<le> pmin"
  shows "length (find_peaks x (Some pmin)) < 2"
proof (rule ccontr)
  let ?P = "find_peaks x (Some pmin)"
  assume "\<not> length ?P < 2"
  then have len: "2 \<le> length ?P" by simp
  have P: "?P = filter (\<lambda>peak. fle (Fin pmin) (peak_prominence x peak)) (local_maxima_1d x)"
    by (simp add: find_peaks_def)
  have srt: "sorted_wrt (<) ?P"
    unfolding P local_maxima_1d_def by (intro sorted_wrt_filter local_maxima_from_sorted)
  have high: "p < length x \<and> 1 / 2 < the_fin (x ! p)" if "p \<in> set ?P" for p
  proof -
    from that have m: "p \<in> set (local_maxima_from x 1 (length x - 1))"
      and f: "fle (Fin pmin) (peak_prominence x p)"
      by (simp_all add: P local_maxima_1d_def)
    from local_maxima_from_bounds[OF m] have lt: "p < length x" by arith
    from peak_prominence_below_height[OF pos lt] obtain r where
      "peak_prominence x p = Fin r" "r < the_fin (x ! p)" by blast
    with f prom lt show ?thesis by simp
  qed
  let ?p = "?P ! 0" and ?q = "?P ! 1"
  have pq: "?p < ?q" using srt len by (simp add: sorted_wrt_iff_nth_less)
  have l0: "0 < length ?P" using len by arith
  have l1: "1 < length ?P" using len by arith
  have "?p \<in> set ?P" "?q \<in> set ?P" by (rule nth_mem[OF l0], rule nth_mem[OF l1])
  with high have hp: "1 / 2 < the_fin (x ! ?p)" and hq: "1 / 2 < the_fin (x ! ?q)"
    and q: "?q < length x" by blast+
  have nonneg: "y \<in> set (map the_fin x) \<Longrightarrow> 0 \<le> y" for y
    using pos by (auto simp: list_all_iff positive_finite_def)
  have "map the_fin x ! ?p + map the_fin x ! ?q \<le> sum_list (map the_fin x)"
    using nonneg pq q by (intro two_entries_le_sum) simp_all
  with pq q hp hq total show False by simp
qed

lemma isi_density_positive:
  assumes "isi_density spike_times t1 res = Inr (isi_bin, isi_hist_g)"
    and fin: "list_all isfinite spike_times" and t1: "0 < t1"
  shows "list_all positive_finite isi_hist_g \<and> sum_list (map the_fin isi_hist_g) \<le> 1"
proof -
  let ?isi = "np_diff spike_times"
  from assms(1) obtain bins where bins: "np_arange 0 350 res = Inr bins"
    by (cases "np_arange 0 350 res") (simp_all add: isi_density_def)
  let ?rows = "map (\<lambda>i. map (\<lambda>x. gaussian (Fin x) i (Fin t1)) bins) ?isi"
  from assms(1) bins obtain h where h: "sum_rows ?rows = Inr h"
    and res: "isi_hist_g = map (\<lambda>v. fdiv v (np_sum h)) h"
    by (cases "sum_rows ?rows") (auto simp add: isi_density_def Let_def)
  have rowpos: "list_all positive_finite row" if "row \<in> set ?rows" for row
  proof -
    from that obtain i where i: "i \<in> set ?isi" and row: "row = map (\<lambda>x. gaussian (Fin x) i (Fin t1)) bins"
      by auto
    from np_diff_finite[OF fin] i obtain mu where "i = Fin mu"
      by (cases i) (auto simp: list_all_iff)
    with row t1 show ?thesis by (simp add: list_all_iff gaussian_positive)
  qed
  from h obtain r rs where rr: "?rows = r # rs" and hh: "h = foldl (\<lambda>acc row. map2 fadd acc row) r rs"
    by (cases ?rows) (simp_all add: sum_rows_def)
  have "list_all positive_finite h"
    unfolding hh using rowpos rr by (intro foldl_map2_fadd_positive) (metis list.set_intros)+
  from normalised_density[OF this] res show ?thesis by simp
qed

lemma infer_frequency_high_prominence_nan:
  assumes "list_all isfinite spike_times" and "0 < t1" and "1 / 2 \<le> prom"
  shows "infer_frequency spike_times t1 t2 res (Some prom) time_step = NaN"
proof (cases "isi_density spike_times t1 res")
  case (Inl e)
  then show ?thesis by (simp add: infer_frequency_def infer_frequency_try_def)
next
  case (Inr r)
  then obtain isi_bin isi_hist_g where d: "isi_density spike_times t1 res = Inr (isi_bin, isi_hist_g)"
    by (cases r) simp
  from isi_density_positive[OF d assms(1,2)]
  have "length (find_peaks isi_hist_g (Some prom)) < 2"
    using assms(3) by (intro find_peaks_at_most_one) simp_all
  with d show ?thesis by (rule infer_frequency_few_peaks)
qed

text \<open>
  C1, as stated, fails: the spike train 0, 10, 20 is perfectly periodic with \<open>T = 10\<close>
  milliseconds, and \<^verbatim>\<open>infer_frequency\<close> with its default parameters returns \<open>nan\<close>, not
  a frequency near \<open>1000 / 10 = 100\<close> Hz.
\<close>

theorem infer_frequency_periodic_counterexample: "infer_frequency_default [Fin 0, Fin 10, Fin 20] = NaN"
  unfolding infer_frequency_default_def
  by (rule infer_frequency_high_prominence_nan) simp_all

text \<open>
  C1, amended: for every perfectly periodic spike train (at least two spikes, any
  start, consecutive spike times differing by \<open>T\<close>), \<^verbatim>\<open>infer_frequency\<close> with its default
  tuning parameters returns the \<open>nan\<close> sentinel. The density of the inter-spike
  intervals sums to 1, so at most one peak can reach the default prominence 0.5; there
  is no difference between peaks, and \<^verbatim>\<open>np.vstack\<close> of the empty list raises.
\<close>

theorem infer_frequency_default_periodic_nan:
  assumes "2 \<le> n" and "spike_times = map (\<lambda>k. Fin (t0 + real k * T)) [0..<n]"
  shows "infer_frequency_default spike_times = NaN"
  unfolding infer_frequency_default_def
  by (rule infer_frequency_high_prominence_nan) (simp_all add: assms(2) list_all_iff)

theorem infer_frequency_default_periodic_nan_witness:
  "(2::nat) \<le> 3 \<and> [Fin 5, Fin 25, Fin 45] = map (\<lambda>k. Fin (5 + real k * 20)) [0..<3] \<and>
   infer_frequency_default [Fin 5, Fin 25, Fin 45] = NaN"
proof -
  have a: "(2::nat) \<le> 3" by simp
  have b: "[Fin 5, Fin 25, Fin 45] = map (\<lambda>k. Fin (5 + real k * 20)) [0..<3]"
    by (simp add: upt_rec)
  show ?thesis using a b infer_frequency_default_periodic_nan[OF a b] by simp
qed

lemma find_peaks_two_humps:
  assumes "a < b" and "c < b" and "pmin \<le> b - a"
  shows "find_peaks [Fin a, Fin b, Fin c, Fin b, Fin a] (Some pmin) = [1, 3]"
proof -
  let ?x = "[Fin a, Fin b, Fin c, Fin b, Fin a]"
  have la1: "look_ahead ?x 1 (1 + 1) 4 = 2"
    using assms by (subst look_ahead.simps) (simp add: nth_Cons')
  have la3: "look_ahead ?x 3 (3 + 1) 4 = 4"
    by (subst look_ahead.simps) simp
  have end5: "local_maxima_from ?x (4 + 1) 4 = []"
    by (subst local_maxima_from.simps) simp
  have from3: "local_maxima_from ?x (2 + 1) 4 = [3]"
  proof -
    have "local_maxima_from ?x 3 4 = [3]"
      apply (subst local_maxima_from.simps)
      apply (simp only: la3 end5)
      using assms by (simp add: nth_Cons')
    then show ?thesis by simp
  qed
  have from1: "local_maxima_from ?x 1 4 = [1, 3]"
    apply (subst local_maxima_from.simps)
    apply (simp only: la1 from3)
    using assms by (simp add: nth_Cons')
  have lm: "local_maxima_1d ?x = [1, 3]"
  proof -
    have "length ?x - 1 = 4" by simp
    then show ?thesis unfolding local_maxima_1d_def by (simp only: from1)
  qed
  have p1: "peak_prominence ?x 1 = Fin (b - a)"
    using assms by (simp add: peak_prominence_def Let_def fmax_def fsub_def nth_Cons')
  have p3: "peak_prominence ?x 3 = Fin (b - a)"
    using assms by (simp add: peak_prominence_def Let_def fmax_def fsub_def nth_Cons' numeral_3_eq_3)
  have p1': "peak_prominence ?x (Suc 0) = Fin (b - a)" using p1 by simp
  show ?thesis
    using assms(3) by (simp add: find_peaks_def lm p1' p3)
qed

lemma exp_minus_small: "80 \<le> x \<Longrightarrow> exp (- x) \<le> (1 / 8 :: real)"
proof -
  assume x: "80 \<le> x"
  have "1 + x \<le> exp x" by (rule exp_ge_add_one_self)
  with x have "8 \<le> exp x" by linarith
  then have "inverse (exp x) \<le> inverse 8" by (intro le_imp_inverse_le) simp_all
  then show ?thesis by (simp add: exp_minus)
qed

lemma gaussian_Fin:
  "sig \<noteq> 0 \<Longrightarrow>
   gaussian (Fin x) (Fin mu) (Fin sig) =
     Fin (1 / (sqrt (2 * pi) * sig) * exp (- (((x - mu) / sig) * ((x - mu) / sig)) / 2))"
  by (simp add: gaussian_def fsub_def)

lemma isi_density_two_intervals:
  fixes e1 e2 e3 s :: real
  defines "e1 \<equiv> exp (- 3200)" and "e2 \<equiv> exp (- 12800)" and "e3 \<equiv> exp (- 28800)"
  defines "s \<equiv> (e1 + e3) + (1 + e2) + (e1 + e1) + (1 + e2) + (e1 + e3)"
  shows "isi_density [Fin 0, Fin 80, Fin 320] 1 80 =
     Inr ([0, 80, 160, 240, 320],
          [Fin ((e1 + e3) / s), Fin ((1 + e2) / s), Fin ((e1 + e1) / s),
           Fin ((1 + e2) / s), Fin ((e1 + e3) / s)])"
proof -
  define c :: real where "c = 1 / sqrt (2 * pi)"
  have cpos: "0 < c" by (simp add: c_def)
  have epos: "0 < e1" "0 < e2" "0 < e3" by (simp_all add: e1_def e2_def e3_def)
  have spos: "0 < s" using epos by (simp add: s_def)
  have bins: "np_arange 0 350 80 = Inr [0, 80, 160, 240, 320]"
    by (simp add: np_arange_def upt_rec)
  have isi: "np_diff [Fin 0, Fin 80, Fin 320] = [Fin 80, Fin 240]"
    by (simp add: fsub_def)
  have g: "gaussian (Fin x) (Fin mu) (Fin 1) = Fin (c * exp (- ((x - mu) * (x - mu)) / 2))" for x mu
    by (simp add: gaussian_Fin c_def)
  have rows: "map (\<lambda>i. map (\<lambda>x. gaussian (Fin x) i (Fin 1)) [0, 80, 160, 240, 320]) [Fin 80, Fin 240] =
      [[Fin (c * e1), Fin (c * 1), Fin (c * e1), Fin (c * e2), Fin (c * e3)],
       [Fin (c * e3), Fin (c * e2), Fin (c * e1), Fin (c * 1), Fin (c * e1)]]"
    by (simp add: g e1_def e2_def e3_def)
  have h: "sum_rows [[Fin (c * e1), Fin (c * 1), Fin (c * e1), Fin (c * e2), Fin (c * e3)],
       [Fin (c * e3), Fin (c * e2), Fin (c * e1), Fin (c * 1), Fin (c * e1)]] =
      Inr [Fin (c * (e1 + e3)), Fin (c * (1 + e2)), Fin (c * (e1 + e1)), Fin (c * (1 + e2)),
           Fin (c * (e1 + e3))]"
    by (simp add: sum_rows_def algebra_simps)
  have total: "np_sum [Fin (c * (e1 + e3)), Fin (c * (1 + e2)), Fin (c * (e1 + e1)), Fin (c * (1 + e2)),
           Fin (c * (e1 + e3))] = Fin (c * s)"
    by (simp add: np_sum_def s_def algebra_simps)
  have cs: "c * s \<noteq> 0" using cpos spos by simp
  have norm: "fdiv (Fin (c * w)) (Fin (c * s)) = Fin (w / s)" for w
    using cs cpos by simp
  show ?thesis
    unfolding isi_density_def bins isi Let_def sum.case rows h total
    by (simp only: norm list.map)
qed

lemma infer_frequency_zero_bin_inf:
  assumes "isi_density spike_times t1 res = Inr (isi_bin, isi_hist_g)"
    and "peak_density (np_diff (map (\<lambda>k. Fin (isi_bin ! k)) (find_peaks isi_hist_g prom))) t2 time_step =
           Inr (peak_loc_bins, peak_hist_g)"
    and "np_argmax peak_hist_g = Inr k" and "peak_loc_bins ! k = 0"
  shows "infer_frequency spike_times t1 t2 res prom time_step = PInf"
  using assms
  by (simp add: infer_frequency_def infer_frequency_try_def Let_def signed_inf_def)

text \<open>
  C10: there is an input on which \<^verbatim>\<open>infer_frequency\<close> returns \<open>+inf\<close>, which is neither
  \<open>nan\<close> nor finite. With the spikes 0, 80, 320 (intervals 80 and 240), \<open>t1 = 1\<close>,
  \<open>t2 = 0.3\<close>, \<open>res = 80\<close>, \<open>prom = 0.25\<close> and \<open>time_step = 15\<close>, the density has two
  peaks, the second grid is the single bin 0, the argmax is that bin, and the division
  \<open>1000 / 0.0\<close> gives \<open>+inf\<close> without raising.
\<close>

theorem infer_frequency_returns_inf:
  "infer_frequency [Fin 0, Fin 80, Fin 320] 1 (Some (3 / 10)) 80 (Some (1 / 4)) 15 = PInf \<and>
   \<not> isnan (infer_frequency [Fin 0, Fin 80, Fin 320] 1 (Some (3 / 10)) 80 (Some (1 / 4)) 15) \<and>
   \<not> isfinite (infer_frequency [Fin 0, Fin 80, Fin 320] 1 (Some (3 / 10)) 80 (Some (1 / 4)) 15)"
proof -
  define e1 :: real where "e1 = exp (- 3200)"
  define e2 :: real where "e2 = exp (- 12800)"
  define e3 :: real where "e3 = exp (- 28800)"
  define s where "s = (e1 + e3) + (1 + e2) + (e1 + e1) + (1 + e2) + (e1 + e3)"
  let ?h = "[Fin ((e1 + e3) / s), Fin ((1 + e2) / s), Fin ((e1 + e1) / s),
             Fin ((1 + e2) / s), Fin ((e1 + e3) / s)]"
  have d: "isi_density [Fin 0, Fin 80, Fin 320] 1 80 = Inr ([0, 80, 160, 240, 320], ?h)"
    unfolding e1_def e2_def e3_def s_def by (rule isi_density_two_intervals)
  have pos: "0 < e1" "0 < e2" "0 < e3" by (simp_all add: e1_def e2_def e3_def)
  have small: "e1 \<le> 1 / 8" "e3 \<le> 1 / 8"
    unfolding e1_def e3_def by (rule exp_minus_small, simp)+
  have spos: "0 < s" using pos by (simp add: s_def)
  have ab: "(e1 + e3) / s < (1 + e2) / s"
    using pos small spos by (intro divide_strict_right_mono) simp_all
  have cb: "(e1 + e1) / s < (1 + e2) / s"
    using pos small spos by (intro divide_strict_right_mono) simp_all
  have "s \<le> 4 * ((1 + e2) - (e1 + e3))" using pos small by (simp add: s_def)
  then have "1 / 4 \<le> ((1 + e2) - (e1 + e3)) / s"
    using spos by (simp add: pos_le_divide_eq)
  then have prom: "1 / 4 \<le> (1 + e2) / s - (e1 + e3) / s"
    by (simp add: diff_divide_distrib)
  have pk: "find_peaks ?h (Some (1 / 4)) = [1, 3]"
    using ab cb prom by (rule find_peaks_two_humps)
  have diffs: "np_diff (map (\<lambda>k. Fin ([0, 80, 160, 240, 320] ! k)) (find_peaks ?h (Some (1 / 4)))) = [Fin 160]"
    unfolding pk by (simp add: fsub_def nth_Cons')
  obtain g where g: "gaussian (Fin 0) (Fin 160) (Fin (3 / 10)) = Fin g"
    using gaussian_Fin[of "3 / 10" 0 160] by simp
  have pd: "peak_density [Fin 160] (Some (3 / 10)) 15 = Inr ([0], [Fin g])"
    by (simp add: peak_density_def np_arange_def sum_rows_def g)
  have am: "np_argmax [Fin g] = Inr 0" by (simp add: np_argmax_def)
  have "infer_frequency [Fin 0, Fin 80, Fin 320] 1 (Some (3 / 10)) 80 (Some (1 / 4)) 15 = PInf"
  proof (rule infer_frequency_zero_bin_inf[OF d _ am])
    show "peak_density
            (np_diff (map (\<lambda>k. Fin ([0, 80, 160, 240, 320] ! k)) (find_peaks ?h (Some (1 / 4)))))
            (Some (3 / 10)) 15 = Inr ([0], [Fin g])"
      unfolding diffs by (rule pd)
    show "[0::real] ! 0 = 0" by simp
  qed
  then show ?thesis by simp
qed

section \<open>Failure paths of the discriminability scorer\<close>

lemma fadd_NaN_right [simp]: "fadd a NaN = NaN"
  by (cases a) simp_all

lemma fmul_NaN_right [simp]: "fmul a NaN = NaN"
  by (cases a) simp_all

lemma length_np_diff [simp]: "length (np_diff xs) = length xs - 1"
  by (induction xs rule: np_diff.induct) simp_all

lemma np_diff_member:
  "d \<in> set (np_diff xs) \<Longrightarrow> \<exists>a b. a \<in> set xs \<and> b \<in> set xs \<and> d = fsub b a"
  by (induction xs rule: np_diff.induct) auto

lemma np_diff_sorted_nonneg:
  "sorted zs \<Longrightarrow> d \<in> set (np_diff (map Fin zs)) \<Longrightarrow> \<not> flt d (Fin 0)"
proof (induction zs rule: induct_list012)
  case (3 x y zs)
  then show ?case by (auto simp: fsub_def)
qed simp_all

lemma foldl_fadd_NaN: "foldl fadd NaN xs = NaN"
  by (induction xs) simp_all

lemma np_sum_NaN: "NaN \<in> set xs \<Longrightarrow> np_sum xs = NaN"
proof -
  assume "NaN \<in> set xs"
  then obtain ys zs where "xs = ys @ NaN # zs" by (meson split_list)
  then show ?thesis by (simp add: np_sum_def foldl_fadd_NaN)
qed

lemma np_trapz_NaN:
  assumes len: "length x = length y" "2 \<le> length x"
    and nan: "(\<forall>v \<in> set x. v = NaN) \<or> (\<forall>v \<in> set y. v = NaN)"
  shows "np_trapz y x = NaN"
proof -
  let ?D = "np_diff x"
  let ?W = "map2 fadd (tl y) (butlast y)"
  let ?Z = "map2 (\<lambda>d s. fdiv (fmul d s) (Fin 2)) ?D ?W"
  have lz: "length ?Z = length x - 1" using len by simp
  have all: "z = NaN" if "z \<in> set ?Z" for z
  proof -
    from that obtain d w where dw: "(d, w) \<in> set (zip ?D ?W)" and z: "z = fdiv (fmul d w) (Fin 2)"
      by auto
    from dw have d: "d \<in> set ?D" and w: "w \<in> set ?W"
      by (auto dest: set_zip_leftD set_zip_rightD)
    from nan show ?thesis
    proof
      assume a: "\<forall>v \<in> set x. v = NaN"
      from np_diff_member[OF d] a have "d = NaN" by (auto simp: fsub_def)
      with z show ?thesis by simp
    next
      assume a: "\<forall>v \<in> set y. v = NaN"
      from w obtain p q where "(p, q) \<in> set (zip (tl y) (butlast y))" "w = fadd p q" by auto
      moreover then have "q \<in> set y" by (auto dest: set_zip_rightD in_set_butlastD)
      ultimately have "w = NaN" using a by auto
      with z show ?thesis by simp
    qed
  qed
  have "0 < length ?Z" unfolding lz using len by arith
  then have "?Z \<noteq> []" by (metis length_greater_0_conv)
  then have "hd ?Z \<in> set ?Z" by (rule hd_in_set)
  with all have "NaN \<in> set ?Z" by metis
  then show ?thesis unfolding np_trapz_def by (rule np_sum_NaN)
qed

lemma metrics_auc_no_raise:
  assumes len: "length x = length y" "2 \<le> length x"
    and x: "(\<forall>v \<in> set x. v = NaN) \<or> (\<exists>zs. sorted zs \<and> x = map Fin zs)"
  shows "metrics_auc x y = Inr (fmul (Fin 1) (np_trapz y x))"
proof -
  have "\<not> flt d (Fin 0)" if "d \<in> set (np_diff x)" for d
    using x
  proof
    assume a: "\<forall>v \<in> set x. v = NaN"
    from np_diff_member[OF that] a have "d = NaN" by (auto simp: fsub_def)
    then show ?thesis by simp
  next
    assume "\<exists>zs. sorted zs \<and> x = map Fin zs"
    with that show ?thesis using np_diff_sorted_nonneg by blast
  qed
  then have "\<not> list_ex (\<lambda>d. flt d (Fin 0)) (np_diff x)" by (simp add: list_ex_iff)
  with len show ?thesis by (simp add: metrics_auc_def Let_def)
qed

lemma filter_take_mono:
  "i \<le> j \<Longrightarrow> length (filter P (take i xs)) \<le> length (filter P (take j xs))"
proof -
  assume "i \<le> j"
  then have "take j xs = take i xs @ take (j - i) (drop i xs)"
    by (metis le_add_diff_inverse take_add)
  then show ?thesis by simp
qed

lemma map2_map_same: "map2 f xs (map g xs) = map (\<lambda>x. f x (g x)) xs"
  by (induction xs) simp_all

lemma sorted_map_nth:
  fixes xs :: "real list"
  assumes "sorted xs" and "sorted ks" and "\<And>k. k \<in> set ks \<Longrightarrow> k < length xs"
  shows "sorted (map (\<lambda>i. xs ! i) ks)"
  using assms(2,3)
proof (induction ks)
  case Nil
  then show ?case by simp
next
  case (Cons k ks)
  have "xs ! k \<le> xs ! j" if "j \<in> set ks" for j
    using that Cons.prems assms(1) by (intro sorted_nth_mono) auto
  with Cons show ?case by auto
qed

lemma binary_clf_curve_counts:
  assumes ne: "y_score \<noteq> []" and fin: "list_all isfinite y_score"
    and len: "length y_true = length y_score"
  shows "\<exists>fps tps. binary_clf_curve y_true y_score pos_label = Inr (fps, tps) \<and>
           length fps = length tps \<and> fps \<noteq> [] \<and> sorted fps \<and> sorted tps \<and>
           (\<forall>c \<in> set fps. 0 \<le> c) \<and> (\<forall>c \<in> set tps. 0 \<le> c) \<and>
           ((\<forall>l \<in> set y_true. l = pos_label) \<longrightarrow> (\<forall>c \<in> set fps. c = 0)) \<and>
           ((\<forall>l \<in> set y_true. l \<noteq> pos_label) \<longrightarrow> (\<forall>c \<in> set tps. c = 0))"
proof -
  define ranked where
    "ranked = rev (sort_key snd (zip (map (\<lambda>l. l = pos_label) y_true) (map the_fin y_score)))"
  define n where "n = length ranked"
  define idxs where
    "idxs = filter (\<lambda>i. snd (ranked ! i) \<noteq> snd (ranked ! (i + 1))) [0..<n - 1] @ [n - 1]"
  define T where "T = (\<lambda>i. real (length (filter fst (take (i + 1) ranked))))"
  define F where "F = (\<lambda>i. real (length (filter (\<lambda>p. \<not> fst p) (take (i + 1) ranked))))"
  have n: "n = length y_score" by (simp add: n_def ranked_def len)
  have npos: "0 < n" using ne n by simp
  have labels: "fst ` set ranked \<subseteq> (\<lambda>l. l = pos_label) ` set y_true"
    by (auto simp: ranked_def dest!: set_zip_leftD)
  have idx_lt: "i < n" if "i \<in> set idxs" for i
    using that npos by (auto simp: idxs_def)
  have "sorted (filter (\<lambda>i. snd (ranked ! i) \<noteq> snd (ranked ! (i + 1))) [0..<n - 1])"
    by (intro sorted_wrt_filter) simp
  then have idx_sorted: "sorted idxs"
    by (auto simp: idxs_def sorted_append)
  have Tmono: "T i \<le> T j" if "i \<le> j" for i j
    using that by (simp add: T_def filter_take_mono)
  have Fmono: "F i \<le> F j" if "i \<le> j" for i j
    using that by (simp add: F_def filter_take_mono)
  have FT: "1 + real i - T i = F i" if "i < n" for i
  proof -
    have "length (filter fst (take (i + 1) ranked)) + length (filter (\<lambda>p. \<not> fst p) (take (i + 1) ranked))
          = length (take (i + 1) ranked)"
      by (rule sum_length_filter_compl)
    moreover have "length (take (i + 1) ranked) = i + 1" using that by (simp add: n_def)
    ultimately show ?thesis by (simp add: T_def F_def)
  qed
  have fps_eq: "map2 (\<lambda>i t. 1 + real i - t) idxs (map T idxs) = map F idxs"
    unfolding map2_map_same by (rule map_cong[OF refl]) (simp add: FT idx_lt)
  have res: "binary_clf_curve y_true y_score pos_label = Inr (map F idxs, map T idxs)"
    using ne fin len fps_eq
    unfolding binary_clf_curve_def Let_def ranked_def[symmetric] n_def[symmetric]
      idxs_def[symmetric] T_def[symmetric]
    by simp
  have sortedF: "sorted (map F idxs)"
    using idx_sorted Fmono by (simp add: sorted_map sorted_wrt_mono_rel[of idxs "(\<le>)"])
  have sortedT: "sorted (map T idxs)"
    using idx_sorted Tmono by (simp add: sorted_map sorted_wrt_mono_rel[of idxs "(\<le>)"])
  have allpos: "(\<forall>l \<in> set y_true. l = pos_label) \<longrightarrow> (\<forall>c \<in> set (map F idxs). c = 0)"
  proof
    assume "\<forall>l \<in> set y_true. l = pos_label"
    with labels have "\<forall>p \<in> set ranked. fst p" by auto
    then have "filter (\<lambda>p. \<not> fst p) (take k ranked) = []" for k
      by (auto simp: filter_empty_conv dest: in_set_takeD)
    then show "\<forall>c \<in> set (map F idxs). c = 0" by (simp add: F_def)
  qed
  have allneg: "(\<forall>l \<in> set y_true. l \<noteq> pos_label) \<longrightarrow> (\<forall>c \<in> set (map T idxs). c = 0)"
  proof
    assume "\<forall>l \<in> set y_true. l \<noteq> pos_label"
    with labels have "\<forall>p \<in> set ranked. \<not> fst p" by auto
    then have "filter fst (take k ranked) = []" for k
      by (auto simp: filter_empty_conv dest: in_set_takeD)
    then show "\<forall>c \<in> set (map T idxs). c = 0" by (simp add: T_def)
  qed
  have ne': "map F idxs \<noteq> []" by (simp add: idxs_def)
  have nonneg: "(\<forall>c \<in> set (map F idxs). 0 \<le> c) \<and> (\<forall>c \<in> set (map T idxs). 0 \<le> c)"
    by (simp add: F_def T_def)
  show ?thesis
    using res sortedF sortedT allpos allneg ne' nonneg by simp
qed

lemma length_rates [simp]: "length (rates counts) = length counts"
  by (simp add: rates_def)

lemma rates_shape:
  assumes "sorted counts"
  shows "(\<forall>v \<in> set (rates counts). v = NaN) \<or> (\<exists>zs. sorted zs \<and> rates counts = map Fin zs)"
proof (cases "last counts \<le> 0")
  case True
  then show ?thesis by (simp add: rates_def)
next
  case False
  then have pos: "0 < last counts" by simp
  have "sorted (map (\<lambda>c. c / last counts) counts)"
    using assms pos
    by (simp add: sorted_map sorted_wrt_mono_rel[of counts "(\<le>)"] divide_right_mono)
  moreover have "rates counts = map Fin (map (\<lambda>c. c / last counts) counts)"
    using False by (simp add: rates_def)
  ultimately show ?thesis by blast
qed

lemma rates_all_zero:
  assumes "\<forall>c \<in> set counts. c = 0" and "counts \<noteq> []"
  shows "\<forall>v \<in> set (rates counts). v = NaN"
proof -
  have "last counts \<in> set counts" using assms(2) by simp
  with assms(1) have "last counts = 0" by blast
  then have "last counts \<le> 0" by simp
  then show ?thesis by (simp add: rates_def)
qed

lemma roc_auc_nonempty:
  assumes ne: "y_score \<noteq> []" and fin: "list_all isfinite y_score"
    and len: "length y_true = length y_score"
  shows "\<exists>v. roc_auc y_true y_score = Inr v \<and>
           ((\<forall>l \<in> set y_true. l = 1) \<or> (\<forall>l \<in> set y_true. l \<noteq> 1) \<longrightarrow> v = NaN)"
proof -
  from binary_clf_curve_counts[OF ne fin len, of 1] obtain fps tps where
    curve: "binary_clf_curve y_true y_score 1 = Inr (fps, tps)"
    and l: "length fps = length tps" and fne: "fps \<noteq> []"
    and sf: "sorted fps" and st: "sorted tps"
    and nf: "\<forall>c \<in> set fps. 0 \<le> c" and nt: "\<forall>c \<in> set tps. 0 \<le> c"
    and onepos: "(\<forall>l \<in> set y_true. l = 1) \<longrightarrow> (\<forall>c \<in> set fps. c = 0)"
    and oneneg: "(\<forall>l \<in> set y_true. l \<noteq> 1) \<longrightarrow> (\<forall>c \<in> set tps. c = 0)"
    by blast
  define keep where "keep = (if length fps > 2 then optimal_idxs fps tps else [0..<length fps])"
  define fps' where "fps' = 0 # map (\<lambda>i. fps ! i) keep"
  define tps' where "tps' = 0 # map (\<lambda>i. tps ! i) keep"
  have keep_lt: "k < length fps" if "k \<in> set keep" for k
    using that by (auto simp: keep_def optimal_idxs_def split: if_splits)
  have keep_sorted: "sorted keep"
    unfolding keep_def optimal_idxs_def by (auto intro!: sorted_wrt_filter)
  have "0 \<in> set keep" using fne by (auto simp: keep_def optimal_idxs_def)
  then have keep_ne: "keep \<noteq> []" by auto
  have len': "length fps' = length tps'" "2 \<le> length fps'"
    using keep_ne by (simp_all add: fps'_def tps'_def Suc_le_eq)
  have sorted_f: "sorted fps'"
    unfolding fps'_def using sorted_map_nth[OF sf keep_sorted keep_lt] nf keep_lt
    by (auto simp: )
  have sorted_t: "sorted tps'"
    unfolding tps'_def using sorted_map_nth[OF st keep_sorted] nt keep_lt l
    by (auto simp: )
  have roc: "metrics_roc_curve y_true y_score 1 = Inr (rates fps', rates tps')"
    unfolding metrics_roc_curve_def curve
    by (simp add: Let_def keep_def fps'_def tps'_def)
  have auc: "metrics_auc (rates fps') (rates tps') =
             Inr (fmul (Fin 1) (np_trapz (rates tps') (rates fps')))"
    using len' rates_shape[OF sorted_f] by (intro metrics_auc_no_raise) simp_all
  have res: "roc_auc y_true y_score = Inr (fmul (Fin 1) (np_trapz (rates tps') (rates fps')))"
    unfolding roc_auc_def roc by (simp add: auc)
  have nan: "np_trapz (rates tps') (rates fps') = NaN"
    if one: "(\<forall>l \<in> set y_true. l = 1) \<or> (\<forall>l \<in> set y_true. l \<noteq> 1)"
  proof -
    have "(\<forall>v \<in> set (rates fps'). v = NaN) \<or> (\<forall>v \<in> set (rates tps'). v = NaN)"
      using one
    proof
      assume "\<forall>l \<in> set y_true. l = 1"
      with onepos have "\<forall>c \<in> set fps. c = 0" by blast
      then have "\<forall>c \<in> set fps'. c = 0" using keep_lt by (auto simp: fps'_def)
      then have "\<forall>v \<in> set (rates fps'). v = NaN" by (intro rates_all_zero) (simp_all add: fps'_def)
      then show ?thesis ..
    next
      assume "\<forall>l \<in> set y_true. l \<noteq> 1"
      with oneneg have "\<forall>c \<in> set tps. c = 0" by blast
      then have "\<forall>c \<in> set tps'. c = 0" using keep_lt l by (auto simp: tps'_def)
      then have "\<forall>v \<in> set (rates tps'). v = NaN" by (intro rates_all_zero) (simp_all add: tps'_def)
      then show ?thesis ..
    qed
    with len' show ?thesis by (intro np_trapz_NaN) simp_all
  qed
  show ?thesis using res nan by auto
qed

lemma roc_auc_empty: "roc_auc [] [] = Inl IndexError"
  by (simp add: roc_auc_def metrics_roc_curve_def binary_clf_curve_def)

lemma sanitize_finite: "list_all isfinite (sanitize d)"
  by (simp add: sanitize_def keep_finite_def list_all_iff)

lemma scorer_outcome:
  fixes c1 c2 :: "npfloat list"
  defines "score \<equiv> sanitize c1 @ sanitize c2"
    and "true_value \<equiv> replicate (length (sanitize c1)) 0 @ replicate (length (sanitize c2)) (1::nat)"
  shows "(c1 = [] \<and> c2 = [] \<longrightarrow> roc_auc true_value score = Inl IndexError) \<and>
         (\<not> (c1 = [] \<and> c2 = []) \<longrightarrow>
            (\<exists>v. roc_auc true_value score = Inr v \<and> (c1 = [] \<or> c2 = [] \<longrightarrow> v = NaN)))"
proof (intro conjI impI)
  assume "c1 = [] \<and> c2 = []"
  then show "roc_auc true_value score = Inl IndexError"
    by (simp add: score_def true_value_def sanitize_def keep_finite_def zero_nonfinite_def roc_auc_empty)
next
  assume ne: "\<not> (c1 = [] \<and> c2 = [])"
  have e1: "sanitize c = [] \<longleftrightarrow> c = []" for c
    using length_sanitize[of c] by (metis length_0_conv)
  have sne: "score \<noteq> []" using ne by (simp add: score_def e1)
  have fin: "list_all isfinite score"
    using sanitize_finite[of c1] sanitize_finite[of c2] by (simp add: score_def)
  have len: "length true_value = length score" by (simp add: score_def true_value_def)
  from roc_auc_nonempty[OF sne fin len] obtain v where
    v: "roc_auc true_value score = Inr v"
    and one: "(\<forall>l \<in> set true_value. l = 1) \<or> (\<forall>l \<in> set true_value. l \<noteq> 1) \<longrightarrow> v = NaN"
    by blast
  have "v = NaN" if "c1 = [] \<or> c2 = []"
  proof -
    from that have "(\<forall>l \<in> set true_value. l = 1) \<or> (\<forall>l \<in> set true_value. l \<noteq> 1)"
      by (auto simp: true_value_def sanitize_def keep_finite_def zero_nonfinite_def)
    with one show ?thesis by blast
  qed
  with v show "\<exists>v. roc_auc true_value score = Inr v \<and> (c1 = [] \<or> c2 = [] \<longrightarrow> v = NaN)"
    by blast
qed

lemma discriminate_ordered:
  "discriminate d1 d2 a b =
     (case roc_auc
        (replicate (length (sanitize (if a > b then d2 else d1))) 0 @
         replicate (length (sanitize (if a > b then d1 else d2))) 1)
        (sanitize (if a > b then d2 else d1) @ sanitize (if a > b then d1 else d2)) of
        Inr v \<Rightarrow> v
      | Inl e \<Rightarrow> Fin 0)"
  by (simp add: discriminate_def Let_def)

text \<open>
  C4: a degenerate input is meant to give the result 0: the comment above the
  sanitising step says so, the \<^verbatim>\<open>except\<close> branch returns 0, and two empty collections do
  give 0. At \<^verbatim>\<open>discriminate([], [5], 0, 1)\<close> one class is absent; \<^verbatim>\<open>roc_curve\<close> only
  warns and returns rates of \<open>nan\<close>, \<^verbatim>\<open>auc\<close> does not raise, the \<^verbatim>\<open>except\<close> branch is not
  reached, and the code returns \<open>nan\<close>, not 0.
\<close>

theorem discriminate_one_class_absent_nan:
  "discriminate [] [Fin 5] 0 1 = NaN \<and> discriminate [] [Fin 5] 0 1 \<noteq> Fin 0"
  by code_simp

text \<open>
  The extent of the defect, for numeric collections: the computation of the curve and
  its area raises exactly when both collections are empty, and only then is the result
  the 0 of the \<^verbatim>\<open>except\<close> branch; whenever exactly one collection is empty the result is
  \<open>nan\<close>. The sanitising step lies outside the \<^verbatim>\<open>try\<close>, so an exception raised there by
  a collection that is not numeric is not caught; such collections are outside the
  input type of this model.
\<close>

lemma discriminate_degenerate_input:
  "(d1 = [] \<and> d2 = [] \<longrightarrow> discriminate d1 d2 a b = Fin 0) \<and>
   ((\<exists>e. roc_auc
        (replicate (length (sanitize (if a > b then d2 else d1))) 0 @
         replicate (length (sanitize (if a > b then d1 else d2))) 1)
        (sanitize (if a > b then d2 else d1) @ sanitize (if a > b then d1 else d2)) = Inl e)
      \<longleftrightarrow> d1 = [] \<and> d2 = []) \<and>
   ((d1 = []) \<noteq> (d2 = []) \<longrightarrow> discriminate d1 d2 a b = NaN)"
proof -
  let ?c1 = "if a > b then d2 else d1" and ?c2 = "if a > b then d1 else d2"
  let ?tv = "replicate (length (sanitize ?c1)) 0 @ replicate (length (sanitize ?c2)) (1::nat)"
  let ?sc = "sanitize ?c1 @ sanitize ?c2"
  note o = scorer_outcome[of ?c1 ?c2]
  have both: "(?c1 = [] \<and> ?c2 = []) \<longleftrightarrow> (d1 = [] \<and> d2 = [])" by auto
  have one: "(?c1 = [] \<or> ?c2 = []) \<longleftrightarrow> (d1 = [] \<or> d2 = [])" by auto
  have a1: "discriminate d1 d2 a b = Fin 0" if "d1 = [] \<and> d2 = []"
  proof -
    from that both o have "roc_auc ?tv ?sc = Inl IndexError" by blast
    then show ?thesis by (simp only: discriminate_ordered sum.case)
  qed
  have a2: "(\<exists>e. roc_auc ?tv ?sc = Inl e) \<longleftrightarrow> d1 = [] \<and> d2 = []"
  proof
    assume "\<exists>e. roc_auc ?tv ?sc = Inl e"
    then show "d1 = [] \<and> d2 = []" using o both by (metis Inl_Inr_False)
  next
    assume "d1 = [] \<and> d2 = []"
    with both o show "\<exists>e. roc_auc ?tv ?sc = Inl e" by blast
  qed
  have a3: "discriminate d1 d2 a b = NaN" if "(d1 = []) \<noteq> (d2 = [])"
  proof -
    from that have "\<not> (d1 = [] \<and> d2 = [])" "d1 = [] \<or> d2 = []" by auto
    with both one o obtain v where "roc_auc ?tv ?sc = Inr v" "v = NaN" by metis
    then show ?thesis by (simp only: discriminate_ordered sum.case)
  qed
  show ?thesis using a1 a2 a3 by blast
qed

end
